theory Spec2Isabelle
  imports Complex_Main "HOL-Library.Word" "HOL-Library.Stream" "HOL-Library.Code_Target_Numeral"
begin

section \<open>Bytes, hexadecimal text and errors\<close>

type_synonym byte = "8 word"
type_synonym bytes = "byte list"

text \<open>
  Every exception the modelled code can raise is a value. The constructors follow the
  messages of the \<open>ValueError\<close>s of \<open>seed.py\<close> and \<open>wallet.py\<close>; \<open>BinasciiError\<close> is what
  \<open>unhexlify\<close> raises, \<open>IndexError\<close> what indexing an empty list raises, \<open>StructError\<close> what
  \<open>struct.pack\<close> raises. \<open>InvalidPhrase\<close>, \<open>NotThirtyTwoBytes\<close>, \<open>PaymentIDInvalid\<close> and
  \<open>AmountInvalid\<close> belong to the parts modelled from the specification. \<open>LibraryError\<close> stands for any
  exception of a library function taken as a parameter (a parameter that can fail
  returns an \<open>option\<close>).
\<close>

datatype error =
    NotValidHexadecimal string
  | NotValidMnemonicOrHex string
  | InvalidChecksum
  | InvalidNetArgument
  | MajorOutsideUint32 int
  | MinorOutsideUint32 int
  | BinasciiError
  | IndexError
  | StructError
  | InvalidPhrase
  | NotThirtyTwoBytes
  | PaymentIDInvalid
  | AmountInvalid
  | LibraryError string

definition hexdigit :: "nat \<Rightarrow> char" where
  "hexdigit n = ''0123456789abcdef'' ! (n mod 16)"

text \<open>\<open>binascii.hexlify\<close>: two lower-case digits per byte, high nibble first.\<close>

fun hexlify :: "bytes \<Rightarrow> string" where
  "hexlify [] = []"
| "hexlify (b # bs) = hexdigit (unat b div 16) # hexdigit (unat b mod 16) # hexlify bs"

definition unhexdigit :: "char \<Rightarrow> nat option" where
  "unhexdigit c =
     (let k = of_char c :: nat in
      if 48 \<le> k \<and> k \<le> 57 then Some (k - 48)
      else if 97 \<le> k \<and> k \<le> 102 then Some (k - 87)
      else if 65 \<le> k \<and> k \<le> 70 then Some (k - 55)
      else None)"

text \<open>
  \<open>binascii.unhexlify\<close>: raises on an odd number of digits and on a character that is
  not a hexadecimal digit; upper and lower case are both read.
\<close>

fun unhexlify :: "string \<Rightarrow> error + bytes" where
  "unhexlify [] = Inr []"
| "unhexlify [c] = Inl BinasciiError"
| "unhexlify (c # d # cs) =
     (case (unhexdigit c, unhexdigit d) of
        (Some h, Some l) \<Rightarrow>
          (case unhexlify cs of
             Inl e \<Rightarrow> Inl e
           | Inr bs \<Rightarrow> Inr (of_nat (16 * h + l) # bs))
      | _ \<Rightarrow> Inl BinasciiError)"

text \<open>The value of a byte string read as a little-endian integer.\<close>

fun le_int :: "bytes \<Rightarrow> int" where
  "le_int [] = 0"
| "le_int (b # bs) = uint b + 256 * le_int bs"

text \<open>The \<open>k\<close> low bytes of an integer, least significant first.\<close>

fun le_bytes :: "nat \<Rightarrow> int \<Rightarrow> bytes" where
  "le_bytes 0 x = []"
| "le_bytes (Suc k) x = word_of_int (x mod 256) # le_bytes k (x div 256)"

text \<open>\<open>struct.pack('<I', n)\<close>: four bytes, little-endian; raises outside \<open>uint32\<close>.\<close>

definition pack_u32le :: "int \<Rightarrow> error + bytes" where
  "pack_u32le n = (if 0 \<le> n \<and> n < 2 ^ 32 then Inr (le_bytes 4 n) else Inl StructError)"

section \<open>The curve library (\<open>uplexa.ed25519\<close>)\<close>

text \<open>
  Modelled from the spec: \<open>ed25519.l\<close>, the order of the prime-order subgroup of the
  Ed25519 curve (the module \<open>uplexa/ed25519.py\<close> is not among the sources).
\<close>

definition ed25519_l :: int where
  "ed25519_l = 2 ^ 252 + 27742317777372353535851937790883648493"

text \<open>
  Modelled from the spec: \<open>ed25519.decodeint\<close> reads a 32-byte little-endian integer
  (section 4.2). The specification gives it 32-byte inputs only; any other length is an
  error of the model.
\<close>

definition decodeint :: "bytes \<Rightarrow> error + int" where
  "decodeint s = (if length s = 32 then Inr (le_int s) else Inl NotThirtyTwoBytes)"

text \<open>
  Modelled from the spec: \<open>ed25519.encodeint\<close> writes an integer as 32 little-endian
  bytes.
\<close>

definition encodeint :: "int \<Rightarrow> bytes" where
  "encodeint y = le_bytes 32 y"

text \<open>
  The remaining library code is taken as a parameter: the Keccak-256 digest (package
  \<open>sha3\<close>), the point operations of \<open>uplexa.ed25519\<close>, \<open>base58.encode\<close>, and the three
  methods of an address object that \<open>Wallet.get_address\<close> calls.
\<close>

datatype base_address = Address string | SubAddress string

record 'pt library =
  keccak_256 :: "bytes \<Rightarrow> bytes"
  decodepoint :: "bytes \<Rightarrow> 'pt option"
  encodepoint :: "'pt \<Rightarrow> bytes"
  scalarmult :: "'pt \<Rightarrow> int \<Rightarrow> 'pt"
  add_compressed :: "'pt \<Rightarrow> 'pt \<Rightarrow> 'pt"
  basepoint :: "'pt"
  base58_encode :: "string \<Rightarrow> string"
  spend_key_of :: "base_address \<Rightarrow> string"
  is_mainnet :: "base_address \<Rightarrow> bool"
  is_testnet :: "base_address \<Rightarrow> bool"

section \<open>\<open>Wallet.get_address\<close> (\<open>wallet.py\<close>)\<close>

text \<open>
  What \<open>get_address\<close> reads of the wallet through its backend: the address lists of the
  accounts and the private view key, in hexadecimal.
\<close>

record wallet =
  accounts :: "base_address list list"
  view_key :: string

text \<open>\<open>Wallet.address\<close>: \<open>self.accounts[0].addresses()[0]\<close>.\<close>

definition address :: "wallet \<Rightarrow> error + base_address" where
  "address w =
     (case accounts w of
        [] \<Rightarrow> Inl IndexError
      | acc # _ \<Rightarrow> (case acc of [] \<Rightarrow> Inl IndexError | a # _ \<Rightarrow> Inr a))"

text \<open>The bytes of \<open>b'SubAddr\0'\<close>.\<close>

definition SubAddr0 :: bytes where
  "SubAddr0 = [83, 117, 98, 65, 100, 100, 114, 0]"

text \<open>
  The data hashed for a sub-address:
  \<open>b''.join([b'SubAddr\0', master_svk, struct.pack('<I', major), struct.pack('<I', minor)])\<close>.
\<close>

definition hsdata :: "bytes \<Rightarrow> int \<Rightarrow> int \<Rightarrow> error + bytes" where
  "hsdata master_svk major minor =
     (case pack_u32le major of
        Inl e \<Rightarrow> Inl e
      | Inr mj \<Rightarrow>
          (case pack_u32le minor of
             Inl e \<Rightarrow> Inl e
           | Inr mn \<Rightarrow> Inr (SubAddr0 @ master_svk @ mj @ mn)))"

text \<open>
  The integer that \<open>get_address\<close> hands to \<open>scalarmult\<close> together with the base point:
  \<open>ed25519.decodeint(m)\<close> for \<open>m = keccak_256(hsdata).digest()\<close>.
\<close>

definition subaddr_scalar :: "'pt library \<Rightarrow> bytes \<Rightarrow> error + int" where
  "subaddr_scalar lib d = (let m = keccak_256 lib d in decodeint m)"

text \<open>
  The derivation proper, lines 210 to 228: the statements after the \<open>(0, 0)\<close> return, in
  the order in which Python evaluates them.
\<close>

definition derive_subaddress ::
  "'pt library \<Rightarrow> wallet \<Rightarrow> base_address \<Rightarrow> int \<Rightarrow> int \<Rightarrow> error + base_address" where
  "derive_subaddress lib w master_address major minor =
     (case unhexlify (view_key w) of
        Inl e \<Rightarrow> Inl e
      | Inr master_svk \<Rightarrow>
     (case address w of
        Inl e \<Rightarrow> Inl e
      | Inr a \<Rightarrow>
     (case unhexlify (spend_key_of lib a) of
        Inl e \<Rightarrow> Inl e
      | Inr master_psk \<Rightarrow>
     (case hsdata master_svk major minor of
        Inl e \<Rightarrow> Inl e
      | Inr d \<Rightarrow>
     (case decodepoint lib master_psk of
        None \<Rightarrow> Inl (LibraryError ''decodepoint'')
      | Some P \<Rightarrow>
     (case subaddr_scalar lib d of
        Inl e \<Rightarrow> Inl e
      | Inr m \<Rightarrow>
     (let D = add_compressed lib P (scalarmult lib (basepoint lib) m) in
     (case decodeint master_svk of
        Inl e \<Rightarrow> Inl e
      | Inr v \<Rightarrow>
     (let C = scalarmult lib D v;
          netbyte = [if is_mainnet lib master_address then 42
                     else if is_testnet lib master_address then 63 else (36 :: byte)];
          data = netbyte @ encodepoint lib D @ encodepoint lib C;
          checksum = take 4 (keccak_256 lib data)
      in Inr (SubAddress (base58_encode lib (hexlify (data @ checksum)))))))))))))"

definition get_address :: "'pt library \<Rightarrow> wallet \<Rightarrow> int \<Rightarrow> int \<Rightarrow> error + base_address" where
  "get_address lib w major minor =
     (if major < 0 \<or> major \<ge> 2 ^ 32 then Inl (MajorOutsideUint32 major)
      else if minor < 0 \<or> minor \<ge> 2 ^ 32 then Inl (MinorOutsideUint32 minor)
      else
        (case address w of
           Inl e \<Rightarrow> Inl e
         | Inr master_address \<Rightarrow>
             if major = minor \<and> minor = 0 then Inr master_address
             else derive_subaddress lib w master_address major minor))"

text \<open>
  A library and a wallet on which the statements below are instantiated: points are
  integers, the digest is constant.
\<close>

definition example_library :: "int library" where
  "example_library =
     \<lparr>keccak_256 = (\<lambda>d. replicate 32 255),
      decodepoint = (\<lambda>s. Some (le_int s)),
      encodepoint = (\<lambda>P. le_bytes 32 P),
      scalarmult = (\<lambda>P e. P * e),
      add_compressed = (\<lambda>P Q. P + Q),
      basepoint = 1,
      base58_encode = (\<lambda>s. s),
      spend_key_of = (\<lambda>a. replicate 64 CHR ''0''),
      is_mainnet = (\<lambda>a. True),
      is_testnet = (\<lambda>a. False)\<rparr>"

definition example_wallet :: wallet where
  "example_wallet = \<lparr>accounts = [[Address ''master'']], view_key = replicate 64 CHR ''0''\<rparr>"

section \<open>\<open>Seed\<close> (\<open>seed.py\<close>)\<close>

text \<open>
  The word list object that \<open>wordlists.get_wordlist\<close> returns, with the three methods
  \<open>Seed\<close> calls. The package \<open>uplexa/wordlists\<close> is not among the sources, so \<open>Seed\<close> is
  modelled over any such object.
\<close>

record wordlist =
  encode :: "string \<Rightarrow> error + string"
  decode :: "string \<Rightarrow> error + string"
  get_checksum :: "string \<Rightarrow> string"

text \<open>
  The fields of a \<open>Seed\<close>. The two caches of the public keys start as \<open>None\<close> and are
  written by \<open>public_spend_key\<close> and \<open>public_view_key\<close> only; they are left out.
\<close>

record seed =
  phrase :: string
  hex :: string
  word_list :: wordlist

text \<open>\<open>str.split(" ")\<close>: cuts at every single space; the result is never empty.\<close>

fun split_sp :: "string \<Rightarrow> string list" where
  "split_sp [] = [[]]"
| "split_sp (c # cs) =
     (if c = CHR '' '' then [] # split_sp cs
      else (case split_sp cs of
              [] \<Rightarrow> [[c]]
            | w # ws \<Rightarrow> (c # w) # ws))"

text \<open>\<open>" ".join(ws)\<close>.\<close>

fun join_sp :: "string list \<Rightarrow> string" where
  "join_sp [] = []"
| "join_sp [w] = w"
| "join_sp (w # v # ws) = w @ CHR '' '' # join_sp (v # ws)"

text \<open>
  \<open>os.urandom\<close> is a stream of bytes that is passed along: \<open>generate_hex\<close> takes the first
  \<open>n_bytes\<close> of it and returns the rest with the hexadecimal text.
\<close>

definition generate_hex :: "nat \<Rightarrow> byte stream \<Rightarrow> string \<times> byte stream" where
  "generate_hex n_bytes rnd = (hexlify (stake n_bytes rnd), sdrop n_bytes rnd)"

definition encode_seed :: "wordlist \<Rightarrow> string \<Rightarrow> byte stream \<Rightarrow> error + seed \<times> byte stream" where
  "encode_seed wl h rnd =
     (case encode wl h of
        Inl e \<Rightarrow> Inl e
      | Inr p \<Rightarrow> Inr (\<lparr>phrase = p, hex = h, word_list = wl\<rparr>, rnd))"

definition decode_seed :: "wordlist \<Rightarrow> string \<Rightarrow> byte stream \<Rightarrow> error + seed \<times> byte stream" where
  "decode_seed wl p rnd =
     (case decode wl p of
        Inl e \<Rightarrow> Inl e
      | Inr h \<Rightarrow> Inr (\<lparr>phrase = p, hex = h, word_list = wl\<rparr>, rnd))"

definition validate_checksum :: "wordlist \<Rightarrow> string \<Rightarrow> error + bool" where
  "validate_checksum wl p =
     (let ws = split_sp p in
      if get_checksum wl p = last ws then Inr True else Inl InvalidChecksum)"

text \<open>
  \<open>Seed.__init__\<close>: the branches in the order of the source. The constructor returns the
  seed and the random stream that is left.
\<close>

definition Seed_init :: "wordlist \<Rightarrow> byte stream \<Rightarrow> string \<Rightarrow> error + seed \<times> byte stream" where
  "Seed_init wl rnd phrase_or_hex =
     (if phrase_or_hex \<noteq> [] then
        (let seed_split = split_sp phrase_or_hex in
         if length seed_split \<ge> 24 then
           (case (if length seed_split = 25 then validate_checksum wl phrase_or_hex
                  else Inr True) of
              Inl e \<Rightarrow> Inl e
            | Inr ok \<Rightarrow> decode_seed wl phrase_or_hex rnd)
         else if length seed_split \<ge> 12 then
           (case (if length seed_split = 13 then validate_checksum wl phrase_or_hex
                  else Inr True) of
              Inl e \<Rightarrow> Inl e
            | Inr ok \<Rightarrow> decode_seed wl phrase_or_hex rnd)
         else if length seed_split = 1 then
           (if length phrase_or_hex mod 8 \<noteq> 0 then Inl (NotValidHexadecimal phrase_or_hex)
            else encode_seed wl phrase_or_hex rnd)
         else Inl (NotValidMnemonicOrHex phrase_or_hex))
      else
        (case generate_hex 32 rnd of
           (h, rnd') \<Rightarrow> encode_seed wl h rnd'))"

definition is_myuplexa :: "seed \<Rightarrow> bool" where
  "is_myuplexa s = (length (hex s) = 32)"

definition sc_reduce :: "bytes \<Rightarrow> error + string" where
  "sc_reduce input =
     (case decodeint input of
        Inl e \<Rightarrow> Inl e
      | Inr integer \<Rightarrow>
          (let modulo = integer mod ed25519_l in Inr (hexlify (encodeint modulo))))"

definition hex_seed_keccak :: "'pt library \<Rightarrow> seed \<Rightarrow> error + bytes" where
  "hex_seed_keccak lib s =
     (case unhexlify (hex s) of
        Inl e \<Rightarrow> Inl e
      | Inr b \<Rightarrow> Inr (keccak_256 lib b))"

definition secret_spend_key :: "'pt library \<Rightarrow> seed \<Rightarrow> error + string" where
  "secret_spend_key lib s =
     (case (if is_myuplexa s then hex_seed_keccak lib s else unhexlify (hex s)) of
        Inl e \<Rightarrow> Inl e
      | Inr a \<Rightarrow> sc_reduce a)"

definition secret_view_key :: "'pt library \<Rightarrow> seed \<Rightarrow> error + string" where
  "secret_view_key lib s =
     (case (if is_myuplexa s then hex_seed_keccak lib s
            else (case secret_spend_key lib s of
                    Inl e \<Rightarrow> Inl e
                  | Inr k \<Rightarrow> unhexlify k)) of
        Inl e \<Rightarrow> Inl e
      | Inr b \<Rightarrow> sc_reduce (keccak_256 lib b))"

text \<open>
  The specification's \<open>reduce_scalar\<close> (section 4.2), in its words: a 32-byte
  little-endian integer, reduced modulo the subgroup order; the scalar is held as its 32
  little-endian bytes.
\<close>

definition reduce_scalar :: "bytes \<Rightarrow> bytes" where
  "reduce_scalar b = le_bytes 32 (le_int b mod ed25519_l)"

text \<open>
  The specification's key derivation (section 4.3), in its words, on the entropy bytes
  and the Keccak-256 digest \<open>K\<close>; the short form is the entropy of 16 bytes.
\<close>

definition spec_secret_spend_key :: "(bytes \<Rightarrow> bytes) \<Rightarrow> bytes \<Rightarrow> bytes" where
  "spec_secret_spend_key K entropy =
     reduce_scalar (if length entropy = 16 then K entropy else entropy)"

definition spec_secret_view_key :: "(bytes \<Rightarrow> bytes) \<Rightarrow> bytes \<Rightarrow> bytes" where
  "spec_secret_view_key K entropy =
     reduce_scalar (K (if length entropy = 16 then K entropy
                       else spec_secret_spend_key K entropy))"

section \<open>The word list codec (\<open>uplexa.wordlists\<close>)\<close>

text \<open>
  Modelled from the spec: the mnemonic codec of section 4.1 (\<open>encode\<close>, \<open>decode\<close> and the
  checksum word); the package \<open>uplexa/wordlists\<close> is not among the sources. The word list
  \<open>words\<close>, the length \<open>plen\<close> of the word prefix that enters the checksum, and the function
  \<open>ck\<close> that computes the checksum word from the prefixes are parameters: the
  specification names them and does not give them.
\<close>

text \<open>
  Modelled from the spec: the position of a word in the word list; \<open>None\<close> for a word
  absent from it.
\<close>

fun index_of :: "string list \<Rightarrow> string \<Rightarrow> nat option" where
  "index_of [] w = None"
| "index_of (x # xs) w = (if x = w then Some 0 else map_option Suc (index_of xs w))"

text \<open>
  Modelled from the spec: a four-byte word \<open>x\<close> is mapped to three word positions by
  base-\<open>n\<close> arithmetic (\<open>n\<close> the size of the word list), where each position depends on
  the position before it.
\<close>

definition encode_block :: "nat \<Rightarrow> nat \<Rightarrow> nat list" where
  "encode_block n x =
     (let w1 = x mod n;
          w2 = (x div n + w1) mod n;
          w3 = (x div n div n + w2) mod n
      in [w1, w2, w3])"

text \<open>Modelled from the spec: the reverse of \<open>encode_block\<close>.\<close>

definition decode_block :: "nat \<Rightarrow> nat \<Rightarrow> nat \<Rightarrow> nat \<Rightarrow> nat" where
  "decode_block n w1 w2 w3 =
     w1 + n * ((w2 + n - w1) mod n) + n * n * ((w3 + n - w2) mod n)"

text \<open>
  Modelled from the spec: the entropy is consumed in four-byte little-endian words,
  three words of the list for each.
\<close>

fun encode_words :: "string list \<Rightarrow> bytes \<Rightarrow> string list" where
  "encode_words words (a # b # c # d # rest) =
     map (\<lambda>i. words ! i) (encode_block (length words) (nat (le_int [a, b, c, d])))
       @ encode_words words rest"
| "encode_words words rest = []"

text \<open>
  Modelled from the spec: decoding three words at a time; the value of each triple is
  written as four little-endian bytes.
\<close>

fun decode_words :: "string list \<Rightarrow> string list \<Rightarrow> error + bytes" where
  "decode_words words (a # b # c # rest) =
     (case (index_of words a, index_of words b, index_of words c) of
        (Some w1, Some w2, Some w3) \<Rightarrow>
          (case decode_words words rest of
             Inl e \<Rightarrow> Inl e
           | Inr bs \<Rightarrow> Inr (le_bytes 4 (int (decode_block (length words) w1 w2 w3)) @ bs))
      | _ \<Rightarrow> Inl InvalidPhrase)"
| "decode_words words rest = Inr []"

text \<open>
  Modelled from the spec: the words a checksum is computed over. A phrase of exactly 13
  or 25 words carries its checksum in the last place, which does not enter the
  computation (sections 4.1 and 9).
\<close>

definition data_words :: "string list \<Rightarrow> string list" where
  "data_words ws = (if length ws = 13 \<or> length ws = 25 then butlast ws else ws)"

text \<open>
  Modelled from the spec: the checksum word, computed from a prefix of each word of the
  phrase.
\<close>

definition checksum_word :: "nat \<Rightarrow> (string list \<Rightarrow> string) \<Rightarrow> string list \<Rightarrow> string" where
  "checksum_word plen ck ws = ck (map (take plen) (data_words ws))"

definition wl_get_checksum :: "nat \<Rightarrow> (string list \<Rightarrow> string) \<Rightarrow> string \<Rightarrow> string" where
  "wl_get_checksum plen ck p = checksum_word plen ck (split_sp p)"

text \<open>
  Modelled from the spec: \<open>encode\<close> takes the entropy as hexadecimal text, a multiple of
  8 characters, and returns the phrase with its checksum word appended (the docstring of
  \<open>Seed._encode_seed\<close>: "with checksum").
\<close>

definition wl_encode ::
  "string list \<Rightarrow> nat \<Rightarrow> (string list \<Rightarrow> string) \<Rightarrow> string \<Rightarrow> error + string" where
  "wl_encode words plen ck h =
     (case unhexlify h of
        Inl e \<Rightarrow> Inl e
      | Inr bs \<Rightarrow>
          if length bs mod 4 \<noteq> 0 then Inl (NotValidHexadecimal h)
          else (let out = encode_words words bs
                in Inr (join_sp (out @ [checksum_word plen ck out]))))"

text \<open>
  Modelled from the spec: \<open>decode\<close> rejects a phrase whose number of words is not 12, 13,
  24 or 25 and a phrase with a word absent from the word list, with an invalid-phrase
  error; otherwise it returns the entropy as hexadecimal text.
\<close>

definition wl_decode :: "string list \<Rightarrow> string \<Rightarrow> error + string" where
  "wl_decode words p =
     (let ws = split_sp p in
      if length ws \<noteq> 12 \<and> length ws \<noteq> 13 \<and> length ws \<noteq> 24 \<and> length ws \<noteq> 25
        then Inl InvalidPhrase
      else if \<not> list_all (\<lambda>w. w \<in> set words) ws then Inl InvalidPhrase
      else (case decode_words words (data_words ws) of
              Inl e \<Rightarrow> Inl e
            | Inr bs \<Rightarrow> Inr (hexlify bs)))"

definition mnemonic_wordlist ::
  "string list \<Rightarrow> nat \<Rightarrow> (string list \<Rightarrow> string) \<Rightarrow> wordlist" where
  "mnemonic_wordlist words plen ck =
     \<lparr>encode = wl_encode words plen ck,
      decode = wl_decode words,
      get_checksum = wl_get_checksum plen ck\<rparr>"

text \<open>
  A list of words is canonical when every triple of it stands for a value that fits in
  four bytes: these are the triples that \<open>encode_block\<close> produces from a four-byte word.
\<close>

fun canonical_words :: "string list \<Rightarrow> string list \<Rightarrow> bool" where
  "canonical_words words (a # b # c # rest) =
     (case (index_of words a, index_of words b, index_of words c) of
        (Some w1, Some w2, Some w3) \<Rightarrow>
          decode_block (length words) w1 w2 w3 < 2 ^ 32 \<and> canonical_words words rest
      | _ \<Rightarrow> False)"
| "canonical_words words rest = True"

section \<open>Amounts and payment identifiers (\<open>uplexa.numbers\<close>)\<close>

text \<open>
  Modelled from the spec: \<open>to_atomic\<close> of section 4.5; the module \<open>uplexa/numbers.py\<close> is
  not among the sources (its tests are). A \<open>Decimal\<close> is a rational number. The amount is
  multiplied by \<open>10^12\<close> and rounded to the nearest integer, a tie going away from zero;
  a negative amount is a caller error.
\<close>

definition to_atomic :: "rat \<Rightarrow> error + int" where
  "to_atomic amount =
     (if amount < 0 then Inl AmountInvalid
      else Inr \<lfloor>amount * 10 ^ 12 + 1 / 2\<rfloor>)"

text \<open>Modelled from the spec: \<open>from_atomic\<close> divides by \<open>10^12\<close> exactly.\<close>

definition from_atomic :: "int \<Rightarrow> rat" where
  "from_atomic n = of_int n / 10 ^ 12"












section \<open>Example instances\<close>

text \<open>
  Instances of the parameters on which the statements below are instantiated: a word
  list of four words, a word list of 1626 words (the size the specification names), a
  checksum function that picks a word of the list, and a random source.
\<close>

definition small_words :: "string list" where
  "small_words = [''aa'', ''bb'', ''cc'', ''dd'']"

definition small_ck :: "string list \<Rightarrow> string" where
  "small_ck ps = small_words ! (length (concat ps) mod 4)"

definition small_wordlist :: wordlist where
  "small_wordlist = mnemonic_wordlist small_words 3 small_ck"

definition unary_words :: "string list" where
  "unary_words = map (\<lambda>k. replicate (Suc k) CHR ''a'') [0..<1626]"

definition unary_ck :: "string list \<Rightarrow> string" where
  "unary_ck ps = replicate (Suc (length (concat ps) mod 1626)) CHR ''a''"

definition example_random :: "byte stream" where
  "example_random = sconst 7"

definition short_seed :: seed where
  "short_seed = \<lparr>phrase = [], hex = replicate 32 CHR ''0'', word_list = small_wordlist\<rparr>"

definition long_seed :: seed where
  "long_seed = \<lparr>phrase = [], hex = replicate 64 CHR ''0'', word_list = small_wordlist\<rparr>"

definition phrase12 :: string where
  "phrase12 = ''aa bb cc dd aa bb cc dd aa bb cc dd''"

definition phrase13 :: string where
  "phrase13 = ''aa bb cc dd aa bb cc dd aa bb cc dd aa''"

definition phrase13_bad :: string where
  "phrase13_bad = ''aa bb cc dd aa bb cc dd aa bb cc dd bb''"

definition phrase14 :: string where
  "phrase14 = ''aa aa aa aa aa aa aa aa aa aa aa aa aa aa''"

text \<open>
  A phrase of 13 words over the list of 1626 words whose first triple stands for
  \<open>1626 * 1626 * 1625\<close>, a value that does not fit in four bytes; its last word is its
  checksum word.
\<close>

definition unary_word :: "nat \<Rightarrow> string" where
  "unary_word k = replicate (Suc k) CHR ''a''"

definition overflow_data :: "string list" where
  "overflow_data =
     [unary_word 0, unary_word 0, unary_word 1625] @ replicate 9 (unary_word 0)"

definition overflow_phrase :: string where
  "overflow_phrase = join_sp (overflow_data @ [checksum_word 5 unary_ck overflow_data])"

section \<open>Properties\<close>

subsection \<open>Hexadecimal text\<close>

lemma unhexdigit_hexdigit_all: "\<forall>k \<in> set [0..<16]. unhexdigit (hexdigit k) = Some k"
  by code_simp

lemma unhexdigit_hexdigit: "k < 16 \<Longrightarrow> unhexdigit (hexdigit k) = Some k"
  using unhexdigit_hexdigit_all by simp

lemma byte_nibbles: "(of_nat (16 * (unat b div 16) + unat b mod 16) :: byte) = b"
  by simp

lemma unat_byte_div: "unat (b :: byte) div 16 < 16"
  using unsigned_less [of b, where ?'a = nat] by simp

lemma unhexlify_hexlify: "unhexlify (hexlify bs) = Inr bs"
  by (induction bs) (simp_all add: unhexdigit_hexdigit unat_byte_div)

lemma length_hexlify: "length (hexlify bs) = 2 * length bs"
  by (induction bs) simp_all

lemma unhexlify_length: "unhexlify s = Inr bs \<Longrightarrow> length s = 2 * length bs"
  by (induction s arbitrary: bs rule: unhexlify.induct)
     (auto split: option.splits sum.splits)

subsection \<open>Little-endian integers\<close>

lemma uint_byte_mod: "uint (word_of_int (x mod 256) :: byte) = x mod 256"
  by (simp add: uint_word_of_int take_bit_eq_mod)

lemma le_int_le_bytes: "le_int (le_bytes k x) = x mod 256 ^ k"
proof (induction k arbitrary: x)
  case 0
  show ?case by simp
next
  case (Suc k)
  have "x mod 256 + 256 * (x div 256 mod 256 ^ k) = x mod (256 * 256 ^ k)"
    by (simp add: zmod_zmult2_eq)
  with Suc show ?case by (simp add: uint_byte_mod)
qed

lemma length_le_bytes: "length (le_bytes k x) = k"
  by (induction k arbitrary: x) auto

lemma le_int_nonneg: "0 \<le> le_int bs"
  by (induction bs) auto

lemma le_int_bound: "le_int bs < 256 ^ length bs"
proof (induction bs)
  case Nil
  show ?case by simp
next
  case (Cons b bs)
  have "uint b < 256" using uint_bounded [of b] by simp
  moreover from Cons have "le_int bs + 1 \<le> 256 ^ length bs" by simp
  then have "256 * (le_int bs + 1) \<le> 256 * 256 ^ length bs" by simp
  ultimately show ?case by simp
qed

subsection \<open>\<open>Wallet.get_address\<close>\<close>

lemma unhexlify_error: "unhexlify s = Inl e \<Longrightarrow> e = BinasciiError"
  by (induction s arbitrary: e rule: unhexlify.induct)
     (auto split: option.splits sum.splits)

lemma address_error: "address w = Inl e \<Longrightarrow> e = IndexError"
  by (auto simp: address_def split: list.splits)

lemma pack_u32le_in_range:
  "0 \<le> n \<Longrightarrow> n < 2 ^ 32 \<Longrightarrow> pack_u32le n = Inr (le_bytes 4 n)"
  by (simp add: pack_u32le_def)

lemma le_int_pack: "0 \<le> n \<Longrightarrow> n < 2 ^ 32 \<Longrightarrow> le_int (le_bytes 4 n) = n"
  by (simp add: le_int_le_bytes)

lemma hsdata_in_range:
  "0 \<le> major \<Longrightarrow> major < 2 ^ 32 \<Longrightarrow> 0 \<le> minor \<Longrightarrow> minor < 2 ^ 32 \<Longrightarrow>
   hsdata svk major minor = Inr (SubAddr0 @ svk @ le_bytes 4 major @ le_bytes 4 minor)"
  by (simp add: hsdata_def pack_u32le_in_range)

lemma derive_subaddress_error:
  assumes "derive_subaddress lib w a major minor = Inl e"
    and "0 \<le> major" "major < 2 ^ 32" "0 \<le> minor" "minor < 2 ^ 32"
  shows "e \<in> {BinasciiError, IndexError, LibraryError ''decodepoint'', NotThirtyTwoBytes}"
  using assms(1)
  unfolding derive_subaddress_def hsdata_in_range [OF assms(2-5)] subaddr_scalar_def
    decodeint_def Let_def
  by (auto split: sum.splits option.splits if_splits dest: unhexlify_error address_error)

lemma get_address_error:
  assumes "get_address lib w major minor = Inl e"
    and "0 \<le> major" "major < 2 ^ 32" "0 \<le> minor" "minor < 2 ^ 32"
  shows "e \<in> {BinasciiError, IndexError, LibraryError ''decodepoint'', NotThirtyTwoBytes}"
proof (cases "address w")
  case (Inl e')
  with assms have "e = e'" by (simp add: get_address_def)
  with Inl show ?thesis by (auto dest: address_error)
next
  case (Inr a)
  show ?thesis
  proof (cases "major = 0 \<and> minor = 0")
    case True
    with Inr assms(1) show ?thesis by (simp add: get_address_def)
  next
    case False
    with Inr assms have "derive_subaddress lib w a major minor = Inl e"
      by (auto simp: get_address_def split: if_splits)
    from derive_subaddress_error [OF this assms(2-5)] show ?thesis .
  qed
qed

lemma unhexlify_zeros: "unhexlify (replicate 64 CHR ''0'') = Inr (replicate 32 0)"
  by code_simp

lemma example_address: "address example_wallet = Inr (Address ''master'')"
  by (simp add: address_def example_wallet_def)

lemma get_address_unfold:
  assumes "0 \<le> major" "major < 2 ^ 32" "0 \<le> minor" "minor < 2 ^ 32"
    and "\<not> (major = 0 \<and> minor = 0)"
    and "address w = Inr a"
    and "unhexlify (view_key w) = Inr svk" "length svk = 32"
    and "unhexlify (spend_key_of lib a) = Inr psk"
    and "decodepoint lib psk = Some P"
    and "length (keccak_256 lib (SubAddr0 @ svk @ le_bytes 4 major @ le_bytes 4 minor)) = 32"
  shows "let d = SubAddr0 @ svk @ le_bytes 4 major @ le_bytes 4 minor;
             m = le_int (keccak_256 lib d);
             D = add_compressed lib P (scalarmult lib (basepoint lib) m);
             C = scalarmult lib D (le_int svk);
             data = (if is_mainnet lib a then 42 else if is_testnet lib a then 63 else 36)
                    # encodepoint lib D @ encodepoint lib C
         in hsdata svk major minor = Inr d \<and>
            subaddr_scalar lib d = Inr m \<and> 0 \<le> m \<and> m < 2 ^ 256 \<and>
            get_address lib w major minor =
              Inr (SubAddress (base58_encode lib (hexlify (data @ take 4 (keccak_256 lib data)))))"
proof -
  let ?d = "SubAddr0 @ svk @ le_bytes 4 major @ le_bytes 4 minor"
  let ?m = "le_int (keccak_256 lib ?d)"
  have h: "hsdata svk major minor = Inr ?d"
    using assms(1-4) by (rule hsdata_in_range)
  have s: "subaddr_scalar lib ?d = Inr ?m"
    using assms(11) by (simp add: subaddr_scalar_def decodeint_def)
  have b: "0 \<le> ?m" "?m < 2 ^ 256"
    using le_int_nonneg [of "keccak_256 lib ?d"] le_int_bound [of "keccak_256 lib ?d"] assms(11)
    by simp_all
  have v: "decodeint svk = Inr (le_int svk)"
    using assms(8) by (simp add: decodeint_def)
  have g: "get_address lib w major minor = derive_subaddress lib w a major minor"
    using assms(1-6) by (auto simp: get_address_def)
  show ?thesis
    unfolding Let_def g
    using b by (simp add: derive_subaddress_def assms(6,7,9,10) h s v Let_def)
qed

lemma example_view_key: "unhexlify (view_key example_wallet) = Inr (replicate 32 0)"
  by (simp add: example_wallet_def unhexlify_zeros)

lemma example_spend_key:
  "unhexlify (spend_key_of example_library a) = Inr (replicate 32 0)"
  by (simp add: example_library_def unhexlify_zeros)

lemma example_decodepoint: "decodepoint example_library (replicate 32 0) = Some 0"
  by (simp add: example_library_def) code_simp

lemma example_derivation_succeeds:
  "\<exists>s. get_address example_library example_wallet 0 1 = Inr (SubAddress s)"
  using get_address_unfold [of 0 1 example_wallet "Address ''master''" "replicate 32 0"
      example_library "replicate 32 0" 0,
      OF _ _ _ _ _ example_address example_view_key _ example_spend_key example_decodepoint]
  by (simp add: example_library_def Let_def)

text \<open>
  C9. \<open>get_address\<close> raises its range error whenever \<open>major\<close> or \<open>minor\<close> is negative or
  at least \<open>2^32\<close>, whatever the wallet and the library are (nothing is read or computed
  before the check); with both indices in range no range error and no packing error is
  raised, and the four bytes packed for each index hold the index itself, not a
  truncation of it.
\<close>

theorem get_address_index_range:
  "(major < 0 \<or> 2 ^ 32 \<le> major \<longrightarrow>
      get_address lib w major minor = Inl (MajorOutsideUint32 major)) \<and>
   (0 \<le> major \<and> major < 2 ^ 32 \<and> (minor < 0 \<or> 2 ^ 32 \<le> minor) \<longrightarrow>
      get_address lib w major minor = Inl (MinorOutsideUint32 minor)) \<and>
   (0 \<le> major \<and> major < 2 ^ 32 \<and> 0 \<le> minor \<and> minor < 2 ^ 32 \<longrightarrow>
      (\<forall>n. get_address lib w major minor \<noteq> Inl (MajorOutsideUint32 n) \<and>
           get_address lib w major minor \<noteq> Inl (MinorOutsideUint32 n) \<and>
           get_address lib w major minor \<noteq> Inl StructError) \<and>
      (\<exists>mj mn. pack_u32le major = Inr mj \<and> pack_u32le minor = Inr mn \<and>
           le_int mj = major \<and> le_int mn = minor))"
proof (intro conjI impI)
  assume "major < 0 \<or> 2 ^ 32 \<le> major"
  then show "get_address lib w major minor = Inl (MajorOutsideUint32 major)"
    by (auto simp: get_address_def)
next
  assume "0 \<le> major \<and> major < 2 ^ 32 \<and> (minor < 0 \<or> 2 ^ 32 \<le> minor)"
  then show "get_address lib w major minor = Inl (MinorOutsideUint32 minor)"
    by (auto simp: get_address_def)
next
  assume r: "0 \<le> major \<and> major < 2 ^ 32 \<and> 0 \<le> minor \<and> minor < 2 ^ 32"
  show "\<forall>n. get_address lib w major minor \<noteq> Inl (MajorOutsideUint32 n) \<and>
           get_address lib w major minor \<noteq> Inl (MinorOutsideUint32 n) \<and>
           get_address lib w major minor \<noteq> Inl StructError"
    using get_address_error [of lib w major minor] r by fastforce
next
  assume r: "0 \<le> major \<and> major < 2 ^ 32 \<and> 0 \<le> minor \<and> minor < 2 ^ 32"
  then show "\<exists>mj mn. pack_u32le major = Inr mj \<and> pack_u32le minor = Inr mn \<and>
           le_int mj = major \<and> le_int mn = minor"
    by (simp add: pack_u32le_in_range le_int_pack)
qed


theorem get_address_index_range_witness:
  "get_address example_library example_wallet (2 ^ 32) 0 = Inl (MajorOutsideUint32 (2 ^ 32)) \<and>
   get_address example_library example_wallet 0 (- 1) = Inl (MinorOutsideUint32 (- 1)) \<and>
   get_address example_library example_wallet 0 1 \<noteq> Inl (MajorOutsideUint32 0) \<and>
   get_address example_library example_wallet 0 1 \<noteq> Inl (MinorOutsideUint32 1) \<and>
   (\<exists>mj mn. pack_u32le 0 = Inr mj \<and> pack_u32le 1 = Inr mn \<and> le_int mj = 0 \<and> le_int mn = 1)"
  using get_address_index_range [of "2 ^ 32" example_library example_wallet 0]
    get_address_index_range [of 0 example_library example_wallet "- 1"]
    get_address_index_range [of 0 example_library example_wallet 1]
  by simp

lemma get_address_bad_view_key:
  assumes "0 \<le> major" "major < 2 ^ 32" "0 \<le> minor" "minor < 2 ^ 32"
    and "\<not> (major = 0 \<and> minor = 0)"
    and "address w = Inr a"
    and "unhexlify (view_key w) = Inl e"
  shows "get_address lib w major minor = Inl e"
  using assms by (auto simp: get_address_def derive_subaddress_def)

text \<open>
  C4. \<open>get_address(0, 0)\<close> is \<open>Wallet.address()\<close>, the master address, for every wallet and
  every library: no library function takes part. Every other pair in range goes through
  the derivation: when the view key and the master spend key decode, the result is the
  \<open>SubAddress\<close> built from \<open>D = P + m * B\<close> and \<open>C = v * D\<close> by the library's point operations,
  its digest and its base58 encoding; when the view key is not hexadecimal the call
  fails where \<open>(0, 0)\<close> would have returned; and whatever it returns on success is a
  \<open>SubAddress\<close>.
\<close>

theorem get_address_master:
  "get_address lib w 0 0 = address w \<and>
   (\<forall>major minor a svk psk P.
      0 \<le> major \<and> major < 2 ^ 32 \<and> 0 \<le> minor \<and> minor < 2 ^ 32 \<and>
      (major, minor) \<noteq> (0, 0) \<and>
      address w = Inr a \<and>
      unhexlify (view_key w) = Inr svk \<and> length svk = 32 \<and>
      unhexlify (spend_key_of lib a) = Inr psk \<and>
      decodepoint lib psk = Some P \<and>
      length (keccak_256 lib (SubAddr0 @ svk @ le_bytes 4 major @ le_bytes 4 minor)) = 32 \<longrightarrow>
      get_address lib w major minor =
        (let m = le_int (keccak_256 lib (SubAddr0 @ svk @ le_bytes 4 major @ le_bytes 4 minor));
             D = add_compressed lib P (scalarmult lib (basepoint lib) m);
             C = scalarmult lib D (le_int svk);
             data = (if is_mainnet lib a then 42 else if is_testnet lib a then 63 else 36)
                    # encodepoint lib D @ encodepoint lib C
         in Inr (SubAddress (base58_encode lib (hexlify (data @ take 4 (keccak_256 lib data))))))) \<and>
   (\<forall>major minor a e.
      0 \<le> major \<and> major < 2 ^ 32 \<and> 0 \<le> minor \<and> minor < 2 ^ 32 \<and>
      (major, minor) \<noteq> (0, 0) \<and>
      address w = Inr a \<and> unhexlify (view_key w) = Inl e \<longrightarrow>
      get_address lib w major minor = Inl e) \<and>
   (\<forall>major minor r.
      0 \<le> major \<and> major < 2 ^ 32 \<and> 0 \<le> minor \<and> minor < 2 ^ 32 \<and>
      (major, minor) \<noteq> (0, 0) \<and> get_address lib w major minor = Inr r \<longrightarrow>
      (\<exists>s. r = SubAddress s))"
proof (intro conjI allI impI)
  show "get_address lib w 0 0 = address w"
    by (simp add: get_address_def split: sum.splits)
next
  fix major minor :: int and a svk psk P
  assume h: "0 \<le> major \<and> major < 2 ^ 32 \<and> 0 \<le> minor \<and> minor < 2 ^ 32 \<and>
      (major, minor) \<noteq> (0, 0) \<and>
      address w = Inr a \<and>
      unhexlify (view_key w) = Inr svk \<and> length svk = 32 \<and>
      unhexlify (spend_key_of lib a) = Inr psk \<and>
      decodepoint lib psk = Some P \<and>
      length (keccak_256 lib (SubAddr0 @ svk @ le_bytes 4 major @ le_bytes 4 minor)) = 32"
  then have n: "\<not> (major = 0 \<and> minor = 0)" by simp
  from h have "let d = SubAddr0 @ svk @ le_bytes 4 major @ le_bytes 4 minor;
             m = le_int (keccak_256 lib d);
             D = add_compressed lib P (scalarmult lib (basepoint lib) m);
             C = scalarmult lib D (le_int svk);
             data = (if is_mainnet lib a then 42 else if is_testnet lib a then 63 else 36)
                    # encodepoint lib D @ encodepoint lib C
         in hsdata svk major minor = Inr d \<and>
            subaddr_scalar lib d = Inr m \<and> 0 \<le> m \<and> m < 2 ^ 256 \<and>
            get_address lib w major minor =
              Inr (SubAddress (base58_encode lib (hexlify (data @ take 4 (keccak_256 lib data)))))"
    by (intro get_address_unfold n) blast+
  then show "get_address lib w major minor =
        (let m = le_int (keccak_256 lib (SubAddr0 @ svk @ le_bytes 4 major @ le_bytes 4 minor));
             D = add_compressed lib P (scalarmult lib (basepoint lib) m);
             C = scalarmult lib D (le_int svk);
             data = (if is_mainnet lib a then 42 else if is_testnet lib a then 63 else 36)
                    # encodepoint lib D @ encodepoint lib C
         in Inr (SubAddress (base58_encode lib (hexlify (data @ take 4 (keccak_256 lib data))))))"
    unfolding Let_def by blast
next
  fix major minor :: int and a e
  assume "0 \<le> major \<and> major < 2 ^ 32 \<and> 0 \<le> minor \<and> minor < 2 ^ 32 \<and>
      (major, minor) \<noteq> (0, 0) \<and>
      address w = Inr a \<and> unhexlify (view_key w) = Inl e"
  then show "get_address lib w major minor = Inl e"
    by (intro get_address_bad_view_key [where a = a]) simp_all
next
  fix major minor :: int and r
  assume h: "0 \<le> major \<and> major < 2 ^ 32 \<and> 0 \<le> minor \<and> minor < 2 ^ 32 \<and>
      (major, minor) \<noteq> (0, 0) \<and> get_address lib w major minor = Inr r"
  then obtain a where "derive_subaddress lib w a major minor = Inr r"
    by (auto simp: get_address_def split: sum.splits if_splits)
  then show "\<exists>s. r = SubAddress s"
    by (auto simp: derive_subaddress_def Let_def split: sum.splits option.splits)
qed
theorem get_address_master_witness:
  "get_address example_library example_wallet 0 0 = Inr (Address ''master'') \<and>
   get_address example_library example_wallet 0 1 =
     (let m = le_int (keccak_256 example_library
                (SubAddr0 @ replicate 32 0 @ le_bytes 4 0 @ le_bytes 4 1));
          D = add_compressed example_library 0
                (scalarmult example_library (basepoint example_library) m);
          C = scalarmult example_library D (le_int (replicate 32 0));
          data = (if is_mainnet example_library (Address ''master'') then 42
                  else if is_testnet example_library (Address ''master'') then 63 else 36)
                 # encodepoint example_library D @ encodepoint example_library C
      in Inr (SubAddress (base58_encode example_library
           (hexlify (data @ take 4 (keccak_256 example_library data)))))) \<and>
   (\<exists>s. get_address example_library example_wallet 0 1 = Inr (SubAddress s))"
proof -
  note t = get_address_master [of example_library example_wallet]
  have z: "get_address example_library example_wallet 0 0 = Inr (Address ''master'')"
    using t [THEN conjunct1] example_address by simp
  have r: "(0 :: int) \<le> 0 \<and> (0 :: int) < 2 ^ 32 \<and> (0 :: int) \<le> 1 \<and> (1 :: int) < 2 ^ 32 \<and>
      (0 :: int, 1 :: int) \<noteq> (0, 0)"
    by simp
  have k: "length (keccak_256 example_library
      (SubAddr0 @ replicate 32 0 @ le_bytes 4 0 @ le_bytes 4 1)) = 32"
    by (simp add: example_library_def)
  have l: "length (replicate 32 (0 :: byte)) = 32" by simp
  have h: "(0 :: int) \<le> 0 \<and> (0 :: int) < 2 ^ 32 \<and> (0 :: int) \<le> 1 \<and> (1 :: int) < 2 ^ 32 \<and>
      (0 :: int, 1 :: int) \<noteq> (0, 0) \<and>
      address example_wallet = Inr (Address ''master'') \<and>
      unhexlify (view_key example_wallet) = Inr (replicate 32 0) \<and>
      length (replicate 32 (0 :: byte)) = 32 \<and>
      unhexlify (spend_key_of example_library (Address ''master'')) = Inr (replicate 32 0) \<and>
      decodepoint example_library (replicate 32 0) = Some 0 \<and>
      length (keccak_256 example_library
        (SubAddr0 @ replicate 32 0 @ le_bytes 4 0 @ le_bytes 4 1)) = 32"
    using r example_address example_view_key l example_spend_key example_decodepoint k
    by blast
  note d = t [THEN conjunct2, THEN conjunct1, rule_format, OF h]
  from example_derivation_succeeds z d show ?thesis by blast
qed

text \<open>
  C3, as the code has it. For a pair in range other than \<open>(0, 0)\<close>, the hashed data is
  \<open>SubAddr0 || view key || LE32(major) || LE32(minor)\<close>, and the scalar multiplied with
  the base point is the 32-byte digest read as a little-endian integer: a number in
  \<open>[0, 2^256)\<close>, handed to \<open>scalarmult\<close> as it is, with no reduction modulo the subgroup
  order.
\<close>

theorem get_address_scalar:
  assumes "0 \<le> major" "major < 2 ^ 32" "0 \<le> minor" "minor < 2 ^ 32"
    and "\<not> (major = 0 \<and> minor = 0)"
    and "address w = Inr a"
    and "unhexlify (view_key w) = Inr svk" "length svk = 32"
    and "unhexlify (spend_key_of lib a) = Inr psk"
    and "decodepoint lib psk = Some P"
    and "length (keccak_256 lib (SubAddr0 @ svk @ le_bytes 4 major @ le_bytes 4 minor)) = 32"
  shows "let d = SubAddr0 @ svk @ le_bytes 4 major @ le_bytes 4 minor;
             m = le_int (keccak_256 lib d);
             D = add_compressed lib P (scalarmult lib (basepoint lib) m);
             C = scalarmult lib D (le_int svk);
             data = (if is_mainnet lib a then 42 else if is_testnet lib a then 63 else 36)
                    # encodepoint lib D @ encodepoint lib C
         in hsdata svk major minor = Inr d \<and>
            subaddr_scalar lib d = Inr m \<and> 0 \<le> m \<and> m < 2 ^ 256 \<and>
            get_address lib w major minor =
              Inr (SubAddress (base58_encode lib (hexlify (data @ take 4 (keccak_256 lib data)))))"
  using assms by (rule get_address_unfold)

theorem get_address_scalar_witness:
  "(let d = SubAddr0 @ replicate 32 0 @ le_bytes 4 0 @ le_bytes 4 1;
        m = le_int (keccak_256 example_library d);
        D = add_compressed example_library 0 (scalarmult example_library (basepoint example_library) m);
        C = scalarmult example_library D (le_int (replicate 32 0));
        data = (if is_mainnet example_library (Address ''master'') then 42
                else if is_testnet example_library (Address ''master'') then 63 else 36)
               # encodepoint example_library D @ encodepoint example_library C
    in hsdata (replicate 32 0) 0 1 = Inr d \<and>
       subaddr_scalar example_library d = Inr m \<and> 0 \<le> m \<and> m < 2 ^ 256 \<and>
       get_address example_library example_wallet 0 1 =
         Inr (SubAddress (base58_encode example_library
           (hexlify (data @ take 4 (keccak_256 example_library data))))))"
proof -
  note a = example_address and v = example_view_key and p = example_spend_key
    and dp = example_decodepoint
  show ?thesis
    using get_address_scalar [of 0 1 example_wallet "Address ''master''" "replicate 32 0"
        example_library "replicate 32 0" 0, OF _ _ _ _ _ a v _ p dp]
    by (simp add: example_library_def)
qed

text \<open>
  C3 as stated fails: with a digest of 32 bytes \<open>0xff\<close> the scalar handed to \<open>scalarmult\<close>
  is \<open>2^256 - 1\<close>, which is not below the subgroup order and is not its own residue.
\<close>

theorem subaddr_scalar_not_reduced:
  "subaddr_scalar example_library (SubAddr0 @ replicate 32 0 @ le_bytes 4 0 @ le_bytes 4 1)
     = Inr (2 ^ 256 - 1) \<and>
   \<not> (2 ^ 256 - 1 < ed25519_l) \<and> (2 ^ 256 - 1) mod ed25519_l \<noteq> 2 ^ 256 - 1"
proof -
  have "le_int (replicate 32 255) = 2 ^ 256 - 1"
    by code_simp
  then show ?thesis
    by (simp add: subaddr_scalar_def example_library_def decodeint_def ed25519_l_def)
qed
subsection \<open>Key derivation of a seed\<close>

lemma sc_reduce_32:
  "length b = 32 \<Longrightarrow> sc_reduce b = Inr (hexlify (reduce_scalar b))"
  unfolding sc_reduce_def decodeint_def reduce_scalar_def encodeint_def Let_def
  by (simp del: le_bytes.simps)

lemma length_reduce_scalar: "length (reduce_scalar b) = 32"
  unfolding reduce_scalar_def by (rule length_le_bytes)

text \<open>
  C1. For a seed whose stored text is valid hexadecimal, with entropy bytes \<open>entropy\<close>: at 32
  characters (16 bytes) the secret spend key is \<open>reduce_scalar (Keccak256 entropy)\<close> and the
  secret view key is \<open>reduce_scalar (Keccak256 (Keccak256 entropy))\<close>; at 64 characters (32
  bytes) the spend key is \<open>reduce_scalar entropy\<close> and the view key is
  \<open>reduce_scalar (Keccak256 k)\<close> for \<open>k\<close> the bytes of the spend key. Both methods return
  the key as hexadecimal text; in both forms they agree with the specification's formulas.
\<close>

theorem secret_keys_from_entropy:
  assumes K: "\<forall>x. length (keccak_256 lib x) = 32"
    and e: "unhexlify (hex s) = Inr entropy"
  shows "(length (hex s) = 32 \<longrightarrow>
            length entropy = 16 \<and>
            secret_spend_key lib s = Inr (hexlify (reduce_scalar (keccak_256 lib entropy))) \<and>
            secret_view_key lib s =
              Inr (hexlify (reduce_scalar (keccak_256 lib (keccak_256 lib entropy))))) \<and>
         (length (hex s) = 64 \<longrightarrow>
            length entropy = 32 \<and>
            secret_spend_key lib s = Inr (hexlify (reduce_scalar entropy)) \<and>
            secret_view_key lib s =
              Inr (hexlify (reduce_scalar (keccak_256 lib (reduce_scalar entropy))))) \<and>
         (length (hex s) = 32 \<or> length (hex s) = 64 \<longrightarrow>
            secret_spend_key lib s = Inr (hexlify (spec_secret_spend_key (keccak_256 lib) entropy)) \<and>
            secret_view_key lib s = Inr (hexlify (spec_secret_view_key (keccak_256 lib) entropy)))"
proof -
  have len: "length (hex s) = 2 * length entropy"
    using e by (rule unhexlify_length)
  have Kx: "\<And>x. sc_reduce (keccak_256 lib x) = Inr (hexlify (reduce_scalar (keccak_256 lib x)))"
    using K by (simp add: sc_reduce_32)
  have short: "length entropy = 16 \<and>
      secret_spend_key lib s = Inr (hexlify (reduce_scalar (keccak_256 lib entropy))) \<and>
      secret_view_key lib s =
        Inr (hexlify (reduce_scalar (keccak_256 lib (keccak_256 lib entropy))))"
    if h: "length (hex s) = 32"
  proof -
    have m: "is_myuplexa s" using h by (simp add: is_myuplexa_def)
    have l: "length entropy = 16" using h len by simp
    have k: "hex_seed_keccak lib s = Inr (keccak_256 lib entropy)"
      by (simp add: hex_seed_keccak_def e)
    have sp: "secret_spend_key lib s = Inr (hexlify (reduce_scalar (keccak_256 lib entropy)))"
      by (simp add: secret_spend_key_def m k Kx)
    have vw: "secret_view_key lib s =
        Inr (hexlify (reduce_scalar (keccak_256 lib (keccak_256 lib entropy))))"
      by (simp add: secret_view_key_def m k Kx)
    from l sp vw show ?thesis by simp
  qed
  have long: "length entropy = 32 \<and>
      secret_spend_key lib s = Inr (hexlify (reduce_scalar entropy)) \<and>
      secret_view_key lib s =
        Inr (hexlify (reduce_scalar (keccak_256 lib (reduce_scalar entropy))))"
    if h: "length (hex s) = 64"
  proof -
    have m: "\<not> is_myuplexa s" using h by (simp add: is_myuplexa_def)
    have l: "length entropy = 32" using h len by simp
    have sp: "secret_spend_key lib s = Inr (hexlify (reduce_scalar entropy))"
      by (simp add: secret_spend_key_def m e sc_reduce_32 [OF l])
    have vw: "secret_view_key lib s =
        Inr (hexlify (reduce_scalar (keccak_256 lib (reduce_scalar entropy))))"
      by (simp add: secret_view_key_def m sp unhexlify_hexlify Kx)
    from l sp vw show ?thesis by simp
  qed
  have spec: "secret_spend_key lib s = Inr (hexlify (spec_secret_spend_key (keccak_256 lib) entropy)) \<and>
      secret_view_key lib s = Inr (hexlify (spec_secret_view_key (keccak_256 lib) entropy))"
    if h: "length (hex s) = 32 \<or> length (hex s) = 64"
    using h
  proof
    assume "length (hex s) = 32"
    from short [OF this] show ?thesis
      by (simp add: spec_secret_spend_key_def spec_secret_view_key_def)
  next
    assume "length (hex s) = 64"
    from long [OF this] show ?thesis
      by (simp add: spec_secret_spend_key_def spec_secret_view_key_def)
  qed
  from short long spec show ?thesis by blast
qed

lemma unhexlify_zeros_short: "unhexlify (replicate 32 CHR ''0'') = Inr (replicate 16 0)"
  by code_simp

lemma example_keccak_length: "\<forall>x. length (keccak_256 example_library x) = 32"
  by (simp add: example_library_def)

theorem secret_keys_from_entropy_witness:
  "length (hex short_seed) = 32 \<and> length (hex long_seed) = 64 \<and>
   secret_spend_key example_library short_seed
     = Inr (hexlify (reduce_scalar (keccak_256 example_library (replicate 16 0)))) \<and>
   secret_view_key example_library short_seed
     = Inr (hexlify (reduce_scalar (keccak_256 example_library
         (keccak_256 example_library (replicate 16 0))))) \<and>
   secret_spend_key example_library long_seed = Inr (hexlify (reduce_scalar (replicate 32 0))) \<and>
   secret_view_key example_library long_seed
     = Inr (hexlify (reduce_scalar (keccak_256 example_library
         (reduce_scalar (replicate 32 0)))))"
proof -
  have s: "unhexlify (hex short_seed) = Inr (replicate 16 0)"
    by (simp add: short_seed_def unhexlify_zeros_short)
  have l: "unhexlify (hex long_seed) = Inr (replicate 32 0)"
    by (simp add: long_seed_def unhexlify_zeros)
  have ls: "length (hex short_seed) = 32" by (simp add: short_seed_def)
  have ll: "length (hex long_seed) = 64" by (simp add: long_seed_def)
  from secret_keys_from_entropy [OF example_keccak_length s]
    secret_keys_from_entropy [OF example_keccak_length l] ls ll
  show ?thesis by simp
qed

subsection \<open>Splitting and joining\<close>

lemma split_sp_nonempty: "split_sp s \<noteq> []"
  by (induction s) (auto split: list.splits)

lemma length_split_sp_pos: "0 < length (split_sp s)"
  using split_sp_nonempty [of s] by simp

lemma join_sp_Cons: "ws \<noteq> [] \<Longrightarrow> join_sp (w # ws) = w @ CHR '' '' # join_sp ws"
  by (cases ws) simp_all

lemma split_sp_append_word:
  "CHR '' '' \<notin> set w \<Longrightarrow> split_sp (w @ CHR '' '' # s) = w # split_sp s"
  by (induction w) (auto split: list.splits)

lemma split_sp_word: "CHR '' '' \<notin> set w \<Longrightarrow> split_sp w = [w]"
  by (induction w) (auto split: list.splits)

lemma split_sp_join_sp:
  "ws \<noteq> [] \<Longrightarrow> \<forall>w \<in> set ws. CHR '' '' \<notin> set w \<Longrightarrow> split_sp (join_sp ws) = ws"
proof (induction ws rule: join_sp.induct)
  case 1
  then show ?case by simp
next
  case (2 w)
  then show ?case by (simp add: split_sp_word)
next
  case (3 w v ws)
  then show ?case by (simp add: split_sp_append_word)
qed

lemma join_sp_split_sp: "join_sp (split_sp s) = s"
proof (induction s)
  case Nil
  show ?case by simp
next
  case (Cons c s)
  show ?case
  proof (cases "c = CHR '' ''")
    case True
    with Cons show ?thesis by (simp add: join_sp_Cons split_sp_nonempty)
  next
    case False
    obtain w ws where sp: "split_sp s = w # ws"
      using split_sp_nonempty [of s] by (cases "split_sp s") auto
    with Cons False show ?thesis by (cases ws) auto
  qed
qed

lemma split_sp_no_space: "w \<in> set (split_sp s) \<Longrightarrow> CHR '' '' \<notin> set w"
  by (induction s arbitrary: w) (auto split: list.splits if_splits)

subsection \<open>Base-\<open>n\<close> blocks\<close>

lemma mod_shift_back:
  fixes a w n :: nat
  assumes "w < n"
  shows "((a + w) mod n + n - w) mod n = a mod n"
proof -
  have "int (((a + w) mod n + n - w) mod n) = ((int a + int w) mod int n + int n - int w) mod int n"
    using assms by (simp add: of_nat_diff zmod_int of_nat_mod)
  also have "\<dots> = (((int a + int w) mod int n - int w) + int n) mod int n"
    by (simp add: algebra_simps)
  also have "\<dots> = ((int a + int w) mod int n - int w) mod int n"
    by (rule mod_add_self2)
  also have "\<dots> = (int a + int w - int w) mod int n"
    by (rule mod_diff_left_eq)
  also have "\<dots> = int (a mod n)"
    by (simp add: zmod_int)
  finally show ?thesis by linarith
qed

lemma mod_shift_forth:
  fixes v w n :: nat
  assumes "w < n" "v < n"
  shows "((v + n - w) mod n + w) mod n = v"
proof -
  have "((v + n - w) mod n + w) mod n = ((v + n - w) + w) mod n"
    by (rule mod_add_left_eq)
  also have "\<dots> = (v + n) mod n" using assms by simp
  also have "\<dots> = v" using assms by simp
  finally show ?thesis .
qed

lemma base_n_digits:
  fixes x n :: nat
  assumes "x < n ^ 3"
  shows "x mod n + n * (x div n mod n) + n * n * (x div n div n mod n) = x"
proof -
  have n: "0 < n" using assms by (cases n) auto
  have "x div n div n < n"
  proof -
    have "x div n div n = x div (n * n)" by (simp add: div_mult2_eq)
    moreover have "x < n * (n * n)" using assms by (simp add: power3_eq_cube mult.assoc)
    ultimately show ?thesis using n by (simp add: less_mult_imp_div_less mult.commute)
  qed
  then have "x div n div n mod n = x div n div n" by simp
  moreover have "n * (x div n mod n) + n * n * (x div n div n) = n * (x div n)"
    by (metis distrib_left mult.assoc mod_mult_div_eq)
  ultimately show ?thesis by (simp add: add.assoc)
qed

lemma decode_block_encode_block:
  assumes "x < n ^ 3"
  shows "encode_block n x = [w1, w2, w3] \<Longrightarrow> decode_block n w1 w2 w3 = x"
proof -
  have n: "0 < n" using assms by (cases n) auto
  assume "encode_block n x = [w1, w2, w3]"
  then have w: "w1 = x mod n" "w2 = (x div n + w1) mod n" "w3 = (x div n div n + w2) mod n"
    by (auto simp: encode_block_def Let_def)
  have "w1 < n" "w2 < n" using n w by simp_all
  then have "(w2 + n - w1) mod n = x div n mod n" "(w3 + n - w2) mod n = x div n div n mod n"
    unfolding w(2) w(3) by (simp_all add: mod_shift_back)
  then show ?thesis
    using base_n_digits [OF assms] by (simp add: decode_block_def w(1))
qed

lemma encode_block_bound:
  "0 < n \<Longrightarrow> \<forall>i \<in> set (encode_block n x). i < n"
  by (simp add: encode_block_def Let_def)

lemma encode_block_decode_block:
  assumes "w1 < n" "w2 < n" "w3 < n"
  shows "encode_block n (decode_block n w1 w2 w3) = [w1, w2, w3]"
proof -
  let ?d2 = "(w2 + n - w1) mod n"
  let ?d3 = "(w3 + n - w2) mod n"
  let ?x = "w1 + n * ?d2 + n * n * ?d3"
  have n: "0 < n" using assms by simp
  have x1: "?x mod n = w1" using assms by (simp add: mult.assoc)
  have xd: "?x div n = ?d2 + n * ?d3"
    using assms n by (simp add: mult.assoc div_add1_eq)
  have "(?d2 + n * ?d3 + w1) mod n = (?d2 + w1 + n * ?d3) mod n"
    by (simp add: ac_simps)
  also have "\<dots> = (?d2 + w1) mod n"
    by (rule mod_mult_self2)
  also have "\<dots> = w2"
    by (rule mod_shift_forth [OF assms(1) assms(2)])
  finally have x2: "(?x div n + w1) mod n = w2"
    unfolding xd .
  have xdd: "?x div n div n = ?d3"
    unfolding xd using n by simp
  have x3: "(?x div n div n + w2) mod n = w3"
    unfolding xdd using mod_shift_forth [OF assms(2) assms(3)] .
  show ?thesis
    unfolding decode_block_def encode_block_def Let_def
    using x1 x2 x3 by simp
qed

subsection \<open>Words and bytes of the codec\<close>

lemma le_bytes_le_int: "le_bytes (length bs) (le_int bs) = bs"
proof (induction bs)
  case Nil
  show ?case by simp
next
  case (Cons b bs)
  have b: "0 \<le> uint b" "uint b < 256"
    using uint_bounded [of b] by simp_all
  then have "(uint b + 256 * le_int bs) mod 256 = uint b"
    and "(uint b + 256 * le_int bs) div 256 = le_int bs"
    by simp_all
  with Cons show ?case by simp
qed

lemma le_bytes_4: "le_bytes 4 (le_int [a, b, c, d]) = [a, b, c, d]"
proof -
  have "length [a, b, c, d] = 4" by simp
  then show ?thesis by (metis le_bytes_le_int)
qed

lemma le_int_4_bound: "nat (le_int [a, b, c, d]) < 2 ^ 32"
  using le_int_bound [of "[a, b, c, d]"] le_int_nonneg [of "[a, b, c, d]"] by simp

lemma index_of_Some:
  "index_of xs w = Some i \<Longrightarrow> i < length xs \<and> xs ! i = w"
  by (induction xs arbitrary: i) (auto split: if_splits)

lemma index_of_None: "index_of xs w = None \<longleftrightarrow> w \<notin> set xs"
  by (induction xs) auto

lemma index_of_nth:
  "distinct xs \<Longrightarrow> i < length xs \<Longrightarrow> index_of xs (xs ! i) = Some i"
proof (induction xs arbitrary: i)
  case Nil
  then show ?case by simp
next
  case (Cons x xs)
  show ?case
  proof (cases i)
    case 0
    then show ?thesis by simp
  next
    case (Suc j)
    with Cons.prems have "xs ! j \<in> set xs" "x \<notin> set xs" by simp_all
    then have "x \<noteq> xs ! j" by auto
    with Suc Cons show ?thesis by simp
  qed
qed

lemma length_encode_block: "length (encode_block n x) = 3"
  by (simp add: encode_block_def Let_def)

lemma length_encode_words: "length (encode_words words bs) = 3 * (length bs div 4)"
  by (induction words bs rule: encode_words.induct) (simp_all add: length_encode_block)

lemma set_encode_words:
  "words \<noteq> [] \<Longrightarrow> set (encode_words words bs) \<subseteq> set words"
proof (induction words bs rule: encode_words.induct)
  case (1 words a b c d rest)
  have "\<forall>i \<in> set (encode_block (length words) (nat (le_int [a, b, c, d]))). i < length words"
    using 1(2) by (intro encode_block_bound) simp
  with 1 show ?case by auto
qed simp_all

lemma decode_words_encode_words:
  assumes "distinct words" "2 ^ 32 \<le> length words ^ 3"
  shows "length bs mod 4 = 0 \<Longrightarrow> decode_words words (encode_words words bs) = Inr bs"
  using assms
proof (induction words bs rule: encode_words.induct)
  case (1 words a b c d rest)
  let ?n = "length words"
  let ?x = "nat (le_int [a, b, c, d])"
  have n: "0 < ?n" using "1.prems"(3) by (cases words) auto
  obtain w1 w2 w3 where e: "encode_block ?n ?x = [w1, w2, w3]"
    unfolding encode_block_def Let_def by blast
  have "\<forall>i \<in> set (encode_block ?n ?x). i < ?n"
    using n by (rule encode_block_bound)
  then have b: "w1 < ?n" "w2 < ?n" "w3 < ?n" unfolding e by simp_all
  have i: "index_of words (words ! w1) = Some w1" "index_of words (words ! w2) = Some w2"
    "index_of words (words ! w3) = Some w3"
    using b "1.prems"(2) by (simp_all add: index_of_nth)
  have "?x < ?n ^ 3"
    using le_int_4_bound [of a b c d] "1.prems"(3) by linarith
  then have d: "decode_block ?n w1 w2 w3 = ?x"
    using e by (rule decode_block_encode_block)
  have x: "int ?x = le_int [a, b, c, d]"
    using le_int_nonneg [of "[a, b, c, d]"] by simp
  have l: "le_bytes 4 (int (decode_block ?n w1 w2 w3)) = [a, b, c, d]"
    unfolding d x by (rule le_bytes_4)
  have r: "decode_words words (encode_words words rest) = Inr rest"
    using "1.prems" by (intro "1.IH") simp_all
  have ew: "encode_words words (a # b # c # d # rest)
      = words ! w1 # words ! w2 # words ! w3 # encode_words words rest"
    unfolding encode_words.simps e by simp
  have "decode_words words (words ! w1 # words ! w2 # words ! w3 # encode_words words rest)
      = Inr ([a, b, c, d] @ rest)"
    unfolding decode_words.simps i r by (simp add: l)
  then show ?case
    unfolding ew by simp
qed simp_all

lemma le_bytes_4_Cons:
  "\<exists>p q r s. le_bytes 4 y = [p, q, r, s]"
  by (simp add: numeral_eq_Suc)

lemma encode_words_decode_words:
  "decode_words words ws = Inr bs \<Longrightarrow> canonical_words words ws \<Longrightarrow>
   length ws mod 3 = 0 \<Longrightarrow> encode_words words bs = ws"
proof (induction words ws arbitrary: bs rule: decode_words.induct)
  case (1 words a b c rest)
  let ?n = "length words"
  from "1.prems"(1) obtain w1 w2 w3 bs' where
    i: "index_of words a = Some w1" "index_of words b = Some w2" "index_of words c = Some w3"
    and r: "decode_words words rest = Inr bs'"
    and bs: "bs = le_bytes 4 (int (decode_block ?n w1 w2 w3)) @ bs'"
    by (auto split: option.splits sum.splits)
  let ?x = "decode_block ?n w1 w2 w3"
  from "1.prems"(2) i have x: "?x < 2 ^ 32" and cr: "canonical_words words rest"
    by simp_all
  have w: "w1 < ?n" "words ! w1 = a" "w2 < ?n" "words ! w2 = b" "w3 < ?n" "words ! w3 = c"
    using i by (auto dest: index_of_Some)
  obtain p q s t where pq: "le_bytes 4 (int ?x) = [p, q, s, t]"
    using le_bytes_4_Cons by blast
  have "le_int (le_bytes 4 (int ?x)) = int ?x mod 256 ^ 4"
    by (rule le_int_le_bytes)
  also have "\<dots> = int ?x" using x by simp
  finally have "nat (le_int [p, q, s, t]) = ?x"
    unfolding pq by simp
  then have e: "encode_block ?n (nat (le_int [p, q, s, t])) = [w1, w2, w3]"
    using w by (simp only: encode_block_decode_block)
  have len: "length rest mod 3 = 0" using "1.prems"(3) by simp
  have ih: "encode_words words bs' = rest"
    by (rule "1.IH" [OF refl i(1) refl i(2) i(3) r cr len])
  have "encode_words words ([p, q, s, t] @ bs') = [a, b, c] @ rest"
    unfolding append_Cons append_Nil encode_words.simps e ih using w by simp
  then show ?case unfolding bs pq by simp
qed simp_all

subsection \<open>Round trips of the codec\<close>

lemma length_decode_words:
  "decode_words words ws = Inr bs \<Longrightarrow> length bs = 4 * (length ws div 3)"
proof (induction words ws arbitrary: bs rule: decode_words.induct)
  case (1 words a b c rest)
  from "1.prems" obtain w1 w2 w3 bs' where
    i: "index_of words a = Some w1" "index_of words b = Some w2" "index_of words c = Some w3"
    and r: "decode_words words rest = Inr bs'"
    and bs: "bs = le_bytes 4 (int (decode_block (length words) w1 w2 w3)) @ bs'"
    by (auto split: option.splits sum.splits)
  have "length bs' = 4 * (length rest div 3)"
    by (rule "1.IH" [OF refl i(1) refl i(2) i(3) r])
  then show ?case unfolding bs by (simp add: length_le_bytes)
qed simp_all

lemma wl_encode_hexlify:
  "length e mod 4 = 0 \<Longrightarrow>
   wl_encode words plen ck (hexlify e) =
     Inr (join_sp (encode_words words e @ [checksum_word plen ck (encode_words words e)]))"
  by (simp add: wl_encode_def unhexlify_hexlify Let_def)

lemma data_words_body:
  "length out = 12 \<or> length out = 24 \<Longrightarrow> data_words (out @ [c]) = out \<and> data_words out = out"
  by (auto simp: data_words_def)

lemma decode_after_encode:
  assumes d: "distinct words" and big: "2 ^ 32 \<le> length words ^ 3"
    and sp: "\<forall>w \<in> set words. CHR '' '' \<notin> set w"
    and ck: "\<forall>xs. ck xs \<in> set words"
    and len: "length e = 16 \<or> length e = 32"
  shows "\<exists>p. wl_encode words plen ck (hexlify e) = Inr p \<and>
             wl_decode words p = Inr (hexlify e) \<and>
             length (split_sp p) = 3 * (length e div 4) + 1"
proof -
  let ?out = "encode_words words e"
  let ?c = "checksum_word plen ck ?out"
  let ?ws = "?out @ [?c]"
  have ne: "words \<noteq> []" using big by (cases words) auto
  have m4: "length e mod 4 = 0" using len by auto
  have lo: "length ?out = 12 \<or> length ?out = 24"
    using len by (auto simp: length_encode_words)
  have c: "?c \<in> set words" using ck by (simp add: checksum_word_def)
  have sub: "set ?ws \<subseteq> set words"
    using set_encode_words [OF ne, of e] c by simp
  then have nosp: "\<forall>w \<in> set ?ws. CHR '' '' \<notin> set w"
    using sp by blast
  have spl: "split_sp (join_sp ?ws) = ?ws"
    by (rule split_sp_join_sp [OF _ nosp]) simp
  have lw: "length ?ws = 13 \<or> length ?ws = 25" using lo by auto
  have dw: "data_words ?ws = ?out" using data_words_body [OF lo] by simp
  have all: "list_all (\<lambda>w. w \<in> set words) ?ws"
    using sub by (simp add: list_all_iff subset_iff)
  have dec: "decode_words words ?out = Inr e"
    by (rule decode_words_encode_words [OF d big m4])
  have "wl_decode words (join_sp ?ws) = Inr (hexlify e)"
    unfolding wl_decode_def spl Let_def dw dec using lw all by auto
  moreover have "length (split_sp (join_sp ?ws)) = 3 * (length e div 4) + 1"
    unfolding spl by (simp add: length_encode_words)
  ultimately show ?thesis
    using wl_encode_hexlify [OF m4, of words plen ck] by blast
qed

lemma encode_after_decode:
  assumes lw: "length (split_sp p) = 13 \<or> length (split_sp p) = 25"
    and dec: "wl_decode words p = Inr h"
    and cs: "wl_get_checksum plen ck p = last (split_sp p)"
    and can: "canonical_words words (data_words (split_sp p))"
  shows "wl_encode words plen ck h = Inr p"
proof -
  let ?ws = "split_sp p"
  let ?out = "butlast ?ws"
  have dw: "data_words ?ws = ?out" using lw by (auto simp: data_words_def)
  from dec obtain bs where b: "decode_words words ?out = Inr bs" and h: "h = hexlify bs"
    unfolding wl_decode_def Let_def dw by (auto split: if_splits sum.splits)
  have lo: "length ?out = 12 \<or> length ?out = 24" using lw by auto
  then have m3: "length ?out mod 3 = 0" by auto
  have lb: "length bs mod 4 = 0"
    using length_decode_words [OF b] by simp
  have enc: "encode_words words bs = ?out"
    using b can m3 unfolding dw by (rule encode_words_decode_words)
  have "data_words ?out = ?out" using lo by (auto simp: data_words_def)
  then have "checksum_word plen ck ?out = checksum_word plen ck ?ws"
    by (simp add: checksum_word_def dw)
  also have "\<dots> = last ?ws" using cs by (simp add: wl_get_checksum_def)
  finally have c: "checksum_word plen ck ?out = last ?ws" .
  have "?out @ [last ?ws] = ?ws"
    using split_sp_nonempty [of p] by simp
  then have "join_sp (?out @ [last ?ws]) = p"
    by (simp add: join_sp_split_sp)
  then show ?thesis
    unfolding h using wl_encode_hexlify [OF lb, of words plen ck] by (simp add: enc c)
qed

subsection \<open>Phrases that do not come back\<close>

lemma split_sp_append:
  "split_sp (a @ CHR '' '' # b) = split_sp a @ split_sp b"
proof (induction a)
  case Nil
  show ?case by simp
next
  case (Cons c a)
  obtain w ws where s: "split_sp a = w # ws"
    using split_sp_nonempty [of a] by (cases "split_sp a") auto
  with Cons show ?case by simp
qed

lemma length_split_sp_ge: "Suc 0 \<le> length (split_sp w)"
  using split_sp_nonempty [of w] by (cases "split_sp w") simp_all

lemma length_split_sp_join_sp:
  "xs \<noteq> [] \<Longrightarrow> length xs \<le> length (split_sp (join_sp xs))"
proof (induction xs rule: join_sp.induct)
  case 1
  then show ?case by simp
next
  case (2 w)
  then show ?case using length_split_sp_ge [of w] by simp
next
  case (3 w v ws)
  then show ?case using length_split_sp_ge [of w] by (simp add: split_sp_append)
qed

lemma short_phrase_grows:
  assumes lw: "length (split_sp q) = 12 \<or> length (split_sp q) = 24"
    and dec: "wl_decode words q = Inr h"
  shows "\<exists>p. wl_encode words plen ck h = Inr p \<and> length (split_sp q) < length (split_sp p)"
proof -
  let ?ws = "split_sp q"
  have dw: "data_words ?ws = ?ws" using lw by (auto simp: data_words_def)
  from dec obtain bs where b: "decode_words words ?ws = Inr bs" and h: "h = hexlify bs"
    unfolding wl_decode_def Let_def dw by (auto split: if_splits sum.splits)
  have lb: "length bs = 4 * (length ?ws div 3)" using b by (rule length_decode_words)
  then have m4: "length bs mod 4 = 0" by simp
  let ?out = "encode_words words bs"
  let ?p = "join_sp (?out @ [checksum_word plen ck ?out])"
  have "length ?out = 3 * (length bs div 4)" by (rule length_encode_words)
  then have lo: "length ?out = length ?ws" using lb lw by auto
  have "length (?out @ [checksum_word plen ck ?out]) \<le> length (split_sp ?p)"
    by (rule length_split_sp_join_sp) simp
  then have "length ?ws < length (split_sp ?p)" using lo by simp
  moreover have "wl_encode words plen ck h = Inr ?p"
    unfolding h by (rule wl_encode_hexlify [OF m4])
  ultimately show ?thesis by blast
qed

subsection \<open>The example word lists\<close>

lemma length_unary_words: "length unary_words = 1626"
  by (simp add: unary_words_def)

lemma distinct_unary_words: "distinct unary_words"
proof -
  have "inj_on (\<lambda>k. replicate (Suc k) CHR ''a'') (set [0..<1626])"
    by (rule inj_onI) (metis length_replicate nat.inject)
  then show ?thesis
    unfolding unary_words_def by (simp add: distinct_map)
qed

lemma unary_words_big: "2 ^ 32 \<le> length unary_words ^ 3"
  by (simp add: length_unary_words)

lemma unary_words_no_space: "\<forall>w \<in> set unary_words. CHR '' '' \<notin> set w"
  by (auto simp: unary_words_def)

lemma unary_ck_word: "\<forall>xs. unary_ck xs \<in> set unary_words"
proof
  fix xs :: "string list"
  have "length (concat xs) mod 1626 \<in> set [0..<1626]" by simp
  then have "(\<lambda>k. replicate (Suc k) CHR ''a'') (length (concat xs) mod 1626)
      \<in> (\<lambda>k. replicate (Suc k) CHR ''a'') ` set [0..<1626]"
    by (rule imageI)
  then show "unary_ck xs \<in> set unary_words"
    unfolding unary_ck_def unary_words_def set_map .
qed

lemma phrase12_count: "length (split_sp phrase12) = 12"
  by code_simp

lemma phrase13_count: "length (split_sp phrase13) = 13"
  by code_simp

lemma phrase13_bad_count: "length (split_sp phrase13_bad) = 13"
  by code_simp

lemma phrase14_count: "length (split_sp phrase14) = 14"
  by code_simp

lemma phrase12_decode:
  "wl_decode small_words phrase12 = Inr ''14000000170000001600000015000000''"
  by code_simp

lemma phrase13_decode:
  "wl_decode small_words phrase13 = Inr ''14000000170000001600000015000000''"
  by code_simp

lemma phrase13_bad_decode:
  "wl_decode small_words phrase13_bad = Inr ''14000000170000001600000015000000''"
  by code_simp

lemma phrase13_checksum:
  "wl_get_checksum 3 small_ck phrase13 = ''aa'' \<and> last (split_sp phrase13) = ''aa''"
  by code_simp

lemma phrase13_bad_checksum:
  "wl_get_checksum 3 small_ck phrase13_bad = ''aa'' \<and> last (split_sp phrase13_bad) = ''bb''"
  by code_simp

lemma phrase13_canonical: "canonical_words small_words (data_words (split_sp phrase13))"
  by code_simp

lemma phrase12_reencoded:
  "wl_encode small_words 3 small_ck ''14000000170000001600000015000000'' = Inr phrase13"
  by code_simp

subsection \<open>A phrase with a triple beyond four bytes\<close>

lemma unary_words_map: "unary_words = map unary_word [0..<1626]"
  by (simp add: unary_words_def unary_word_def)

lemma nth_unary_words: "k < 1626 \<Longrightarrow> unary_words ! k = unary_word k"
  by (simp add: unary_words_map)

lemma unary_word_in: "k < 1626 \<Longrightarrow> unary_word k \<in> set unary_words"
  using nth_mem [of k unary_words] by (simp add: length_unary_words nth_unary_words)

lemma index_of_unary_word: "k < 1626 \<Longrightarrow> index_of unary_words (unary_word k) = Some k"
  using index_of_nth [OF distinct_unary_words, of k]
  by (simp add: length_unary_words nth_unary_words)

lemma unary_word_inject: "unary_word j = unary_word k \<Longrightarrow> j = k"
  by (metis unary_word_def length_replicate nat.inject)

lemma overflow_data_length: "length overflow_data = 12"
  by (simp add: overflow_data_def)

lemma overflow_data_words: "set overflow_data \<subseteq> set unary_words"
  by (auto simp: overflow_data_def unary_word_in)

lemma overflow_split:
  "split_sp overflow_phrase = overflow_data @ [checksum_word 5 unary_ck overflow_data]"
proof -
  have "checksum_word 5 unary_ck overflow_data \<in> set unary_words"
    using unary_ck_word by (simp add: checksum_word_def)
  with overflow_data_words
  have "\<forall>w \<in> set (overflow_data @ [checksum_word 5 unary_ck overflow_data]).
      CHR '' '' \<notin> set w"
    using unary_words_no_space by auto
  then show ?thesis
    unfolding overflow_phrase_def by (intro split_sp_join_sp) simp_all
qed

lemma overflow_count: "length (split_sp overflow_phrase) = 13"
  by (simp add: overflow_split overflow_data_length)

lemma overflow_data_words_eq: "data_words (split_sp overflow_phrase) = overflow_data"
  by (simp add: overflow_split data_words_def overflow_data_length)

lemma overflow_checksum:
  "wl_get_checksum 5 unary_ck overflow_phrase = last (split_sp overflow_phrase)"
proof -
  have a: "wl_get_checksum 5 unary_ck overflow_phrase = unary_ck (map (take 5) overflow_data)"
    by (simp only: wl_get_checksum_def checksum_word_def overflow_data_words_eq)
  have b: "last (split_sp overflow_phrase) = checksum_word 5 unary_ck overflow_data"
    by (simp add: overflow_split)
  have c: "checksum_word 5 unary_ck overflow_data = unary_ck (map (take 5) overflow_data)"
    by (simp add: checksum_word_def data_words_def overflow_data_length)
  from a b c show ?thesis by simp
qed

lemma overflow_block: "decode_block 1626 0 0 1625 = 4296298500"
  by (simp add: decode_block_def)

lemma zero_block: "decode_block 1626 0 0 0 = 0"
  by (simp add: decode_block_def)

lemma overflow_bytes: "le_bytes 4 4296298500 = [4, 80, 20, 0]"
  by code_simp

lemma zero_bytes: "le_bytes 4 0 = [0, 0, 0, 0]"
  by code_simp

lemma overflow_decode_words:
  "decode_words unary_words overflow_data = Inr ([4, 80, 20, 0] @ replicate 12 0)"
proof -
  have r: "replicate 9 (unary_word 0) = [unary_word 0, unary_word 0, unary_word 0,
      unary_word 0, unary_word 0, unary_word 0, unary_word 0, unary_word 0, unary_word 0]"
    by (simp add: eval_nat_numeral)
  have z: "replicate 12 (0 :: byte) = [0, 0, 0, 0, 0, 0, 0, 0, 0, 0, 0, 0]"
    by (simp add: eval_nat_numeral)
  show ?thesis
    unfolding overflow_data_def r z
    by (simp add: index_of_unary_word length_unary_words zero_block zero_bytes
        overflow_block overflow_bytes del: le_bytes.simps)
qed


lemma overflow_decode:
  "wl_decode unary_words overflow_phrase = Inr (hexlify ([4, 80, 20, 0] @ replicate 12 0))"
proof -
  have "set (split_sp overflow_phrase) \<subseteq> set unary_words"
    using overflow_data_words unary_ck_word
    by (simp add: overflow_split checksum_word_def)
  then have "list_all (\<lambda>w. w \<in> set unary_words) (split_sp overflow_phrase)"
    by (simp add: list_all_iff subset_iff)
  then show ?thesis
    unfolding wl_decode_def Let_def overflow_data_words_eq overflow_decode_words
    by (simp add: overflow_count)
qed

lemma overflow_not_canonical:
  "\<not> canonical_words unary_words (data_words (split_sp overflow_phrase))"
  unfolding overflow_data_words_eq overflow_data_def
  by (simp add: index_of_unary_word length_unary_words overflow_block)

lemma overflow_first_block: "encode_block 1626 (nat (le_int [4, 80, 20, 0])) = [1136, 328, 328]"
  by code_simp

lemma overflow_reencode:
  "wl_encode unary_words 5 unary_ck (hexlify ([4, 80, 20, 0] @ replicate 12 0))
     \<noteq> Inr overflow_phrase"
proof
  let ?bs = "[4, 80, 20, 0] @ replicate 12 (0 :: byte)"
  let ?out = "encode_words unary_words ?bs"
  let ?c = "checksum_word 5 unary_ck ?out"
  assume a: "wl_encode unary_words 5 unary_ck (hexlify ?bs) = Inr overflow_phrase"
  have m: "length ?bs mod 4 = 0" by simp
  have "Inr (join_sp (?out @ [?c])) = (Inr overflow_phrase :: error + string)"
    using wl_encode_hexlify [OF m, of unary_words 5 unary_ck] a by (rule trans [OF sym])
  then have j: "join_sp (?out @ [?c]) = overflow_phrase" by (simp only: sum.inject)
  have ne: "unary_words \<noteq> []" using length_unary_words by auto
  have c: "?c \<in> set unary_words" using unary_ck_word by (simp only: checksum_word_def)
  have sub: "set ?out \<subseteq> set unary_words" by (rule set_encode_words [OF ne])
  have "\<forall>w \<in> set (?out @ [?c]). CHR '' '' \<notin> set w"
  proof
    fix w assume "w \<in> set (?out @ [?c])"
    then have "w \<in> set ?out \<or> w = ?c" by (simp only: set_append list.set) blast
    with sub c have "w \<in> set unary_words" by blast
    with unary_words_no_space show "CHR '' '' \<notin> set w" by blast
  qed
  then have "split_sp (join_sp (?out @ [?c])) = ?out @ [?c]"
    by (intro split_sp_join_sp) (simp_all only: append_is_Nil_conv list.distinct simp_thms)
  then have eq: "?out @ [?c] = overflow_data @ [checksum_word 5 unary_ck overflow_data]"
    unfolding j overflow_split by (rule sym)
  have lo: "length ?out = 12"
    unfolding length_encode_words by simp
  have "length ?out = length overflow_data"
    unfolding lo overflow_data_length by (rule refl)
  then have "length ?out = length overflow_data
      \<or> length [?c] = length [checksum_word 5 unary_ck overflow_data]"
    by (rule disjI1)
  from eq [unfolded append_eq_append_conv [OF this]] have o: "?out = overflow_data"
    by (rule conjunct1)
  have u: "?out = map (\<lambda>i. unary_words ! i) [1136, 328, 328]
      @ encode_words unary_words (replicate 12 0)"
    unfolding append_Cons append_Nil encode_words.simps length_unary_words overflow_first_block
    by (rule refl)
  have "hd ?out = unary_words ! 1136"
    unfolding u by (simp only: list.map append_Cons list.sel)
  then have "hd ?out = unary_word 1136" by (simp add: nth_unary_words)
  moreover have "hd overflow_data = unary_word 0"
    unfolding overflow_data_def by (simp only: append_Cons list.sel)
  ultimately have "unary_word 1136 = unary_word 0" unfolding o by (rule trans [OF sym])
  then show False using unary_word_inject [of 1136 0] by simp
qed

subsection \<open>The branches of the constructor\<close>

lemma wl_decode_error: "wl_decode words p = Inl e \<Longrightarrow> e = InvalidPhrase"
proof -
  have "decode_words words ws = Inl e \<Longrightarrow> e = InvalidPhrase" for ws
    by (induction words ws rule: decode_words.induct)
       (auto split: option.splits sum.splits)
  then show "wl_decode words p = Inl e \<Longrightarrow> e = InvalidPhrase"
    by (auto simp: wl_decode_def Let_def split: if_splits sum.splits)
qed

lemma wl_decode_count:
  "length (split_sp p) \<notin> {12, 13, 24, 25} \<Longrightarrow> wl_decode words p = Inl InvalidPhrase"
  by (simp add: wl_decode_def Let_def)

lemma Seed_init_phrase:
  assumes "12 \<le> length (split_sp p)"
  shows "Seed_init wl rnd p =
     (if (length (split_sp p) = 13 \<or> length (split_sp p) = 25)
          \<and> get_checksum wl p \<noteq> last (split_sp p)
      then Inl InvalidChecksum
      else decode_seed wl p rnd)"
proof -
  have "p \<noteq> []" using assms by auto
  then show ?thesis using assms
    by (auto simp: Seed_init_def Let_def validate_checksum_def)
qed

lemma Seed_init_few_words:
  assumes "2 \<le> length (split_sp p)" "length (split_sp p) < 12"
  shows "Seed_init wl rnd p = Inl (NotValidMnemonicOrHex p)"
proof -
  have "p \<noteq> []" using assms by auto
  then show ?thesis using assms by (simp add: Seed_init_def Let_def)
qed

text \<open>
  C5. Against the codec of section 4.1: constructing a seed from a phrase of two or more
  words whose count is not 12, 13, 24 or 25 fails, with the constructor's own error below
  12 words and with the decoder's invalid-phrase error otherwise; hence a construction
  that succeeds had one of the four counts.
\<close>

theorem Seed_init_word_count:
  assumes "2 \<le> length (split_sp p)"
  shows "(length (split_sp p) \<notin> {12, 13, 24, 25} \<longrightarrow>
            Seed_init (mnemonic_wordlist words plen ck) rnd p =
              Inl (if length (split_sp p) < 12 then NotValidMnemonicOrHex p else InvalidPhrase)) \<and>
         (\<forall>r. Seed_init (mnemonic_wordlist words plen ck) rnd p = Inr r \<longrightarrow>
            length (split_sp p) \<in> {12, 13, 24, 25})"
proof -
  let ?wl = "mnemonic_wordlist words plen ck"
  have bad: "Seed_init ?wl rnd p =
      Inl (if length (split_sp p) < 12 then NotValidMnemonicOrHex p else InvalidPhrase)"
    if n: "length (split_sp p) \<notin> {12, 13, 24, 25}"
  proof (cases "length (split_sp p) < 12")
    case True
    with assms show ?thesis by (simp add: Seed_init_few_words)
  next
    case False
    then have "12 \<le> length (split_sp p)" by simp
    from Seed_init_phrase [OF this] n False show ?thesis
      by (simp add: decode_seed_def mnemonic_wordlist_def wl_decode_count)
  qed
  show ?thesis
  proof (intro conjI allI impI)
    assume "length (split_sp p) \<notin> {12, 13, 24, 25}"
    then show "Seed_init ?wl rnd p =
        Inl (if length (split_sp p) < 12 then NotValidMnemonicOrHex p else InvalidPhrase)"
      by (rule bad)
  next
    fix r assume s: "Seed_init ?wl rnd p = Inr r"
    show "length (split_sp p) \<in> {12, 13, 24, 25}"
    proof (rule ccontr)
      assume "length (split_sp p) \<notin> {12, 13, 24, 25}"
      from bad [OF this] s show False by simp
    qed
  qed
qed

lemma two_words_count: "length (split_sp ''aa bb'') = 2"
  by code_simp

lemma small_decode: "decode small_wordlist = wl_decode small_words"
  by (simp add: small_wordlist_def mnemonic_wordlist_def)

lemma small_get_checksum: "get_checksum small_wordlist = wl_get_checksum 3 small_ck"
  by (simp add: small_wordlist_def mnemonic_wordlist_def)

lemma phrase12_seed:
  "Seed_init small_wordlist rnd phrase12 =
     Inr (\<lparr>phrase = phrase12, hex = ''14000000170000001600000015000000'',
           word_list = small_wordlist\<rparr>, rnd)"
proof -
  have "12 \<le> length (split_sp phrase12)" by (simp add: phrase12_count)
  from Seed_init_phrase [OF this, of small_wordlist rnd] show ?thesis
    by (simp add: phrase12_count decode_seed_def small_decode phrase12_decode)
qed

theorem Seed_init_word_count_witness:
  "Seed_init small_wordlist example_random ''aa bb'' = Inl (NotValidMnemonicOrHex ''aa bb'') \<and>
   Seed_init small_wordlist example_random phrase14 = Inl InvalidPhrase \<and>
   (\<exists>r. Seed_init small_wordlist example_random phrase12 = Inr r) \<and>
   length (split_sp phrase12) \<in> {12, 13, 24, 25}"
proof -
  have a: "2 \<le> length (split_sp ''aa bb'')" by (simp add: two_words_count)
  have b: "2 \<le> length (split_sp phrase14)" by (simp add: phrase14_count)
  have c: "2 \<le> length (split_sp phrase12)" by (simp add: phrase12_count)
  from Seed_init_word_count [OF a, of small_words 3 small_ck example_random]
  have 1: "Seed_init small_wordlist example_random ''aa bb''
      = Inl (NotValidMnemonicOrHex ''aa bb'')"
    unfolding small_wordlist_def by (simp add: two_words_count)
  from Seed_init_word_count [OF b, of small_words 3 small_ck example_random]
  have 2: "Seed_init small_wordlist example_random phrase14 = Inl InvalidPhrase"
    unfolding small_wordlist_def by (simp add: phrase14_count)
  from Seed_init_word_count [OF c, of small_words 3 small_ck example_random]
    phrase12_seed [of example_random]
  have 3: "length (split_sp phrase12) \<in> {12, 13, 24, 25}"
    unfolding small_wordlist_def by blast
  from 1 2 3 phrase12_seed [of example_random] show ?thesis by blast
qed

text \<open>
  C6. For a phrase of exactly 13 or exactly 25 words the constructor compares the last
  word with \<open>get_checksum\<close> of the phrase and raises the checksum error exactly when they
  differ (the decoder being one that raises no checksum error of its own); when they
  agree the result is that of decoding. For a phrase of 12 or 24 words the result is
  that of decoding alone: \<open>get_checksum\<close> takes no part and no checksum error is raised.
\<close>

theorem Seed_init_checksum:
  assumes "decode wl p \<noteq> Inl InvalidChecksum"
  shows "(length (split_sp p) = 13 \<or> length (split_sp p) = 25 \<longrightarrow>
            (Seed_init wl rnd p = Inl InvalidChecksum
               \<longleftrightarrow> get_checksum wl p \<noteq> last (split_sp p)) \<and>
            (get_checksum wl p = last (split_sp p) \<longrightarrow>
               Seed_init wl rnd p = decode_seed wl p rnd)) \<and>
         (length (split_sp p) = 12 \<or> length (split_sp p) = 24 \<longrightarrow>
            Seed_init wl rnd p = decode_seed wl p rnd \<and>
            Seed_init wl rnd p \<noteq> Inl InvalidChecksum)"
proof -
  have d: "decode_seed wl p rnd \<noteq> Inl InvalidChecksum"
    using assms by (auto simp: decode_seed_def split: sum.splits)
  have with_cs: "(Seed_init wl rnd p = Inl InvalidChecksum
               \<longleftrightarrow> get_checksum wl p \<noteq> last (split_sp p)) \<and>
            (get_checksum wl p = last (split_sp p) \<longrightarrow>
               Seed_init wl rnd p = decode_seed wl p rnd)"
    if l: "length (split_sp p) = 13 \<or> length (split_sp p) = 25"
  proof -
    have "12 \<le> length (split_sp p)" using l by auto
    from Seed_init_phrase [OF this, of wl rnd] l d show ?thesis by auto
  qed
  have without_cs: "Seed_init wl rnd p = decode_seed wl p rnd \<and>
            Seed_init wl rnd p \<noteq> Inl InvalidChecksum"
    if l: "length (split_sp p) = 12 \<or> length (split_sp p) = 24"
  proof -
    have "12 \<le> length (split_sp p)" using l by auto
    from Seed_init_phrase [OF this, of wl rnd] l d show ?thesis by auto
  qed
  from with_cs without_cs show ?thesis by blast
qed

theorem Seed_init_checksum_witness:
  "Seed_init small_wordlist example_random phrase13_bad = Inl InvalidChecksum \<and>
   get_checksum small_wordlist phrase13_bad \<noteq> last (split_sp phrase13_bad) \<and>
   get_checksum small_wordlist phrase13 = last (split_sp phrase13) \<and>
   Seed_init small_wordlist example_random phrase13
     = decode_seed small_wordlist phrase13 example_random \<and>
   Seed_init small_wordlist example_random phrase13 \<noteq> Inl InvalidChecksum \<and>
   Seed_init small_wordlist example_random phrase12
     = decode_seed small_wordlist phrase12 example_random"
proof -
  have d1: "decode small_wordlist phrase13_bad \<noteq> Inl InvalidChecksum"
    by (simp add: small_decode phrase13_bad_decode)
  have d2: "decode small_wordlist phrase13 \<noteq> Inl InvalidChecksum"
    by (simp add: small_decode phrase13_decode)
  have d3: "decode small_wordlist phrase12 \<noteq> Inl InvalidChecksum"
    by (simp add: small_decode phrase12_decode)
  have c1: "get_checksum small_wordlist phrase13_bad \<noteq> last (split_sp phrase13_bad)"
    using phrase13_bad_checksum by (simp add: small_get_checksum)
  have c2: "get_checksum small_wordlist phrase13 = last (split_sp phrase13)"
    using phrase13_checksum by (simp add: small_get_checksum)
  from Seed_init_checksum [OF d1, of example_random] Seed_init_checksum [OF d2, of example_random]
    Seed_init_checksum [OF d3, of example_random]
    c1 c2 phrase13_bad_count phrase13_count phrase12_count
  show ?thesis by (simp del: One_nat_def) metis
qed

lemma small_encode: "encode small_wordlist = wl_encode small_words 3 small_ck"
  by (simp add: small_wordlist_def mnemonic_wordlist_def)

text \<open>
  C10. \<open>generate_hex(n_bytes)\<close> takes exactly \<open>n_bytes\<close> bytes of the random source and
  returns \<open>2 * n_bytes\<close> hexadecimal characters that read back as those bytes. A seed
  constructed with no argument stores the text of 32 random bytes: 64 characters,
  \<open>is_myuplexa\<close> is false, the secret spend key is the reduced entropy itself and the view
  key is derived from the spend key, with no Keccak digest of the entropy.
\<close>

theorem seed_from_randomness:
  "length (fst (generate_hex n rnd)) = 2 * n \<and>
   snd (generate_hex n rnd) = sdrop n rnd \<and>
   unhexlify (fst (generate_hex n rnd)) = Inr (stake n rnd) \<and>
   Seed_init wl rnd [] =
     (case encode wl (hexlify (stake 32 rnd)) of
        Inl e \<Rightarrow> Inl e
      | Inr p \<Rightarrow> Inr (\<lparr>phrase = p, hex = hexlify (stake 32 rnd), word_list = wl\<rparr>,
                     sdrop 32 rnd)) \<and>
   (\<forall>s rnd'. Seed_init wl rnd [] = Inr (s, rnd') \<longrightarrow>
      rnd' = sdrop 32 rnd \<and> hex s = hexlify (stake 32 rnd) \<and>
      length (hex s) = 64 \<and> \<not> is_myuplexa s \<and>
      secret_spend_key lib s = Inr (hexlify (reduce_scalar (stake 32 rnd))) \<and>
      secret_view_key lib s = sc_reduce (keccak_256 lib (reduce_scalar (stake 32 rnd))))"
proof (intro conjI allI impI)
  show "length (fst (generate_hex n rnd)) = 2 * n"
    by (simp add: generate_hex_def length_hexlify)
  show "snd (generate_hex n rnd) = sdrop n rnd"
    by (simp add: generate_hex_def)
  show "unhexlify (fst (generate_hex n rnd)) = Inr (stake n rnd)"
    by (simp add: generate_hex_def unhexlify_hexlify)
  show i: "Seed_init wl rnd [] =
     (case encode wl (hexlify (stake 32 rnd)) of
        Inl e \<Rightarrow> Inl e
      | Inr p \<Rightarrow> Inr (\<lparr>phrase = p, hex = hexlify (stake 32 rnd), word_list = wl\<rparr>,
                     sdrop 32 rnd))"
    by (simp add: Seed_init_def generate_hex_def encode_seed_def)
  fix s rnd' assume "Seed_init wl rnd [] = Inr (s, rnd')"
  with i have r: "rnd' = sdrop 32 rnd" and h: "hex s = hexlify (stake 32 rnd)"
    by (auto split: sum.splits)
  show "rnd' = sdrop 32 rnd" by (fact r)
  show "hex s = hexlify (stake 32 rnd)" by (fact h)
  show l: "length (hex s) = 64" by (simp add: h length_hexlify)
  then show m: "\<not> is_myuplexa s" by (simp add: is_myuplexa_def)
  have e: "unhexlify (hex s) = Inr (stake 32 rnd)"
    by (simp add: h unhexlify_hexlify)
  have l32: "length (stake 32 rnd) = 32" by simp
  show sp: "secret_spend_key lib s = Inr (hexlify (reduce_scalar (stake 32 rnd)))"
    by (simp add: secret_spend_key_def m e sc_reduce_32 [OF l32])
  show "secret_view_key lib s = sc_reduce (keccak_256 lib (reduce_scalar (stake 32 rnd)))"
    by (simp add: secret_view_key_def m sp unhexlify_hexlify)
qed

theorem seed_from_randomness_witness:
  "length (fst (generate_hex 32 example_random)) = 2 * 32 \<and>
   (\<exists>s. Seed_init small_wordlist example_random [] = Inr (s, sdrop 32 example_random) \<and>
        hex s = hexlify (stake 32 example_random) \<and>
        length (hex s) = 64 \<and> \<not> is_myuplexa s \<and>
        secret_spend_key example_library s
          = Inr (hexlify (reduce_scalar (stake 32 example_random))))"
proof -
  let ?h = "hexlify (stake 32 example_random)"
  have "length (stake 32 example_random) mod 4 = 0" by simp
  from wl_encode_hexlify [OF this, of small_words 3 small_ck]
  obtain p where p: "encode small_wordlist ?h = Inr p"
    unfolding small_encode by blast
  note t = seed_from_randomness [of 32 example_random small_wordlist example_library]
  note len = t [THEN conjunct1]
  note init = t [THEN conjunct2, THEN conjunct2, THEN conjunct2, THEN conjunct1]
  note props = t [THEN conjunct2, THEN conjunct2, THEN conjunct2, THEN conjunct2, rule_format]
  have i: "Seed_init small_wordlist example_random [] =
      Inr (\<lparr>phrase = p, hex = ?h, word_list = small_wordlist\<rparr>, sdrop 32 example_random)"
    by (simp only: init p sum.case)
  from props [OF i] have "hex \<lparr>phrase = p, hex = ?h, word_list = small_wordlist\<rparr> = ?h \<and>
      length (hex \<lparr>phrase = p, hex = ?h, word_list = small_wordlist\<rparr>) = 64 \<and>
      \<not> is_myuplexa \<lparr>phrase = p, hex = ?h, word_list = small_wordlist\<rparr> \<and>
      secret_spend_key example_library \<lparr>phrase = p, hex = ?h, word_list = small_wordlist\<rparr>
        = Inr (hexlify (reduce_scalar (stake 32 example_random)))"
    by blast
  with i len show ?thesis by blast
qed

subsection \<open>The round trip of the codec\<close>

text \<open>
  C2, as the codec has it. Over a word list of distinct words without spaces that is
  large enough to hold four bytes in three words (\<open>size^3 \<ge> 2^32\<close>), with a checksum
  function whose word is always a word of the list: for every entropy \<open>e\<close> of 16 or 32
  bytes, encoding succeeds, the phrase has three words per four bytes and the checksum
  word, and decoding it returns \<open>e\<close>. In the other direction, for every phrase \<open>q\<close> of 13
  or 25 words that decodes, whose last word is its checksum word and whose triples stand
  for four-byte values, encoding the decoded entropy returns \<open>q\<close>. A phrase of 12 or 24
  words that decodes never comes back: encoding its entropy succeeds and gives a phrase
  of more words.
\<close>

theorem codec_round_trip:
  "(distinct words \<and> 2 ^ 32 \<le> length words ^ 3 \<and> (\<forall>w \<in> set words. CHR '' '' \<notin> set w) \<and>
      (\<forall>xs. ck xs \<in> set words) \<and> (length e = 16 \<or> length e = 32) \<longrightarrow>
      (\<exists>p. wl_encode words plen ck (hexlify e) = Inr p \<and>
           wl_decode words p = Inr (hexlify e) \<and>
           length (split_sp p) = 3 * (length e div 4) + 1)) \<and>
   ((length (split_sp q) = 13 \<or> length (split_sp q) = 25) \<and>
      wl_decode words q = Inr h \<and>
      wl_get_checksum plen ck q = last (split_sp q) \<and>
      canonical_words words (data_words (split_sp q)) \<longrightarrow>
      wl_encode words plen ck h = Inr q) \<and>
   ((length (split_sp q) = 12 \<or> length (split_sp q) = 24) \<and>
      wl_decode words q = Inr h \<longrightarrow>
      (\<exists>p. wl_encode words plen ck h = Inr p \<and> length (split_sp q) < length (split_sp p)) \<and>
      wl_encode words plen ck h \<noteq> Inr q)"
proof (intro conjI impI)
  assume "distinct words \<and> 2 ^ 32 \<le> length words ^ 3 \<and>
      (\<forall>w \<in> set words. CHR '' '' \<notin> set w) \<and>
      (\<forall>xs. ck xs \<in> set words) \<and> (length e = 16 \<or> length e = 32)"
  then show "\<exists>p. wl_encode words plen ck (hexlify e) = Inr p \<and>
           wl_decode words p = Inr (hexlify e) \<and>
           length (split_sp p) = 3 * (length e div 4) + 1"
    by (intro decode_after_encode) simp_all
next
  assume "(length (split_sp q) = 13 \<or> length (split_sp q) = 25) \<and>
      wl_decode words q = Inr h \<and>
      wl_get_checksum plen ck q = last (split_sp q) \<and>
      canonical_words words (data_words (split_sp q))"
  then show "wl_encode words plen ck h = Inr q"
    by (intro encode_after_decode) simp_all
next
  assume a: "(length (split_sp q) = 12 \<or> length (split_sp q) = 24) \<and>
      wl_decode words q = Inr h"
  then show g: "\<exists>p. wl_encode words plen ck h = Inr p \<and>
      length (split_sp q) < length (split_sp p)"
    by (intro short_phrase_grows) simp_all
  show "wl_encode words plen ck h \<noteq> Inr q"
  proof
    assume "wl_encode words plen ck h = Inr q"
    with g show False by auto
  qed
qed

theorem codec_round_trip_witness:
  "(\<exists>p. wl_encode unary_words 5 unary_ck (hexlify (replicate 16 7)) = Inr p \<and>
        wl_decode unary_words p = Inr (hexlify (replicate 16 7)) \<and>
        length (split_sp p) = 3 * (length (replicate 16 (7 :: byte)) div 4) + 1) \<and>
   length (split_sp phrase13) = 13 \<and>
   wl_decode small_words phrase13 = Inr ''14000000170000001600000015000000'' \<and>
   wl_encode small_words 3 small_ck ''14000000170000001600000015000000'' = Inr phrase13 \<and>
   length (split_sp phrase12) = 12 \<and>
   wl_decode small_words phrase12 = Inr ''14000000170000001600000015000000'' \<and>
   (\<exists>p. wl_encode small_words 3 small_ck ''14000000170000001600000015000000'' = Inr p \<and>
        length (split_sp phrase12) < length (split_sp p))"
proof -
  have l: "length (replicate 16 (7 :: byte)) = 16 \<or> length (replicate 16 (7 :: byte)) = 32"
    by simp
  note a = codec_round_trip [where words = unary_words and ck = unary_ck
      and e = "replicate 16 7" and plen = 5, THEN conjunct1, rule_format,
      OF conjI [OF distinct_unary_words conjI [OF unary_words_big
        conjI [OF unary_words_no_space conjI [OF unary_ck_word l]]]]]
  have c: "wl_get_checksum 3 small_ck phrase13 = last (split_sp phrase13)"
    using phrase13_checksum by simp
  note b = codec_round_trip [where words = small_words and ck = small_ck and plen = 3
      and q = phrase13 and h = "''14000000170000001600000015000000''",
      THEN conjunct2, THEN conjunct1, rule_format,
      OF conjI [OF disjI1 [OF phrase13_count] conjI [OF phrase13_decode
        conjI [OF c phrase13_canonical]]]]
  note d = codec_round_trip [where words = small_words and ck = small_ck and plen = 3
      and q = phrase12 and h = "''14000000170000001600000015000000''",
      THEN conjunct2, THEN conjunct2, rule_format,
      OF conjI [OF disjI1 [OF phrase12_count] phrase12_decode], THEN conjunct1]
  from a b d phrase13_count phrase13_decode phrase12_count phrase12_decode
  show ?thesis by blast
qed

text \<open>
  C2 as stated fails in two ways. A phrase of 12 words that decodes comes back with 13
  words, since \<open>encode\<close> appends the checksum word. And a phrase of 13 words over a list
  of 1626 words, with its checksum word in place, decodes but does not come back when
  one of its triples stands for a value of \<open>2^32\<close> or more: here the first triple stands
  for \<open>1626 * 1626 * 1625 = 4296298500\<close>, four bytes keep \<open>1331204\<close> of it, and encoding
  those bytes starts with another word.
\<close>

theorem phrases_that_do_not_round_trip:
  "length (split_sp phrase12) = 12 \<and>
   wl_decode small_words phrase12 = Inr ''14000000170000001600000015000000'' \<and>
   wl_encode small_words 3 small_ck ''14000000170000001600000015000000'' = Inr phrase13 \<and>
   phrase13 \<noteq> phrase12 \<and>
   length (split_sp overflow_phrase) = 13 \<and>
   wl_get_checksum 5 unary_ck overflow_phrase = last (split_sp overflow_phrase) \<and>
   wl_decode unary_words overflow_phrase = Inr (hexlify ([4, 80, 20, 0] @ replicate 12 0)) \<and>
   wl_encode unary_words 5 unary_ck (hexlify ([4, 80, 20, 0] @ replicate 12 0))
     \<noteq> Inr overflow_phrase"
proof -
  have "phrase13 \<noteq> phrase12" by (simp add: phrase12_def phrase13_def)
  with phrase12_count phrase12_decode phrase12_reencoded
    overflow_count overflow_checksum overflow_decode overflow_reencode
  show ?thesis by blast
qed

subsection \<open>Amounts\<close>

lemma to_atomic_nearest:
  assumes "0 \<le> a"
  shows "\<exists>n. to_atomic a = Inr n \<and> \<bar>of_int n - a * 10 ^ 12\<bar> \<le> 1 / 2 \<and> 0 \<le> n"
proof -
  let ?x = "a * 10 ^ 12"
  let ?n = "\<lfloor>?x + 1 / 2\<rfloor>"
  have x: "0 \<le> ?x" using assms by simp
  have "of_int ?n \<le> ?x + 1 / 2" by (rule of_int_floor_le)
  moreover have "?x + 1 / 2 < of_int ?n + 1" by linarith
  ultimately have "\<bar>of_int ?n - ?x\<bar> \<le> 1 / 2" by linarith
  moreover have "0 \<le> ?n" using x by simp
  ultimately show ?thesis using assms by (simp add: to_atomic_def)
qed

lemma to_atomic_tie:
  assumes "0 \<le> a" "a * 10 ^ 12 = of_int k + 1 / 2"
  shows "to_atomic a = Inr (k + 1)"
proof -
  have "a * 10 ^ 12 + 1 / 2 = of_int (k + 1)" using assms(2) by simp
  then have "\<lfloor>a * 10 ^ 12 + 1 / 2\<rfloor> = k + 1" by (simp only: floor_of_int)
  then show ?thesis using assms(1) by (simp add: to_atomic_def)
qed

lemma to_atomic_from_atomic: "0 \<le> n \<Longrightarrow> to_atomic (from_atomic n) = Inr n"
proof -
  assume n: "0 \<le> n"
  have "\<lfloor>(of_int n :: rat) + 1 / 2\<rfloor> = n" by linarith
  then show ?thesis using n by (simp add: to_atomic_def from_atomic_def)
qed

text \<open>
  C7. Against \<open>to_atomic\<close> and \<open>from_atomic\<close> of section 4.5: for an amount that is not
  negative, \<open>to_atomic\<close> returns an integer within one half of the amount times \<open>10^12\<close>,
  and on a tie the larger one (away from zero); \<open>to_atomic 1 = 10^12\<close> and
  \<open>to_atomic 1.0000000000004 = 10^12\<close>; \<open>from_atomic\<close> divides by \<open>10^12\<close> exactly, and
  \<open>from_atomic 1 = 0.000000000001\<close>.
\<close>

theorem atomic_amounts:
  "(0 \<le> a \<longrightarrow>
      (\<exists>n. to_atomic a = Inr n \<and> \<bar>of_int n - a * 10 ^ 12\<bar> \<le> 1 / 2) \<and>
      (\<forall>k. a * 10 ^ 12 = of_int k + 1 / 2 \<longrightarrow> to_atomic a = Inr (k + 1))) \<and>
   to_atomic 1 = Inr 1000000000000 \<and>
   to_atomic (10000000000004 / 10 ^ 13) = Inr 1000000000000 \<and>
   from_atomic m * 10 ^ 12 = of_int m \<and>
   from_atomic 1 = 1 / 10 ^ 12"
proof (intro conjI impI allI)
  assume a: "0 \<le> a"
  from to_atomic_nearest [OF a]
  show "\<exists>n. to_atomic a = Inr n \<and> \<bar>of_int n - a * 10 ^ 12\<bar> \<le> 1 / 2" by blast
  fix k assume "a * 10 ^ 12 = of_int k + 1 / 2"
  with a show "to_atomic a = Inr (k + 1)" by (rule to_atomic_tie)
next
  have "\<lfloor>(1 :: rat) * 10 ^ 12 + 1 / 2\<rfloor> = 1000000000000"
    by (rule floor_unique) simp_all
  then show "to_atomic 1 = Inr 1000000000000"
    unfolding to_atomic_def by simp
  have "\<lfloor>(10000000000004 / 10 ^ 13 :: rat) * 10 ^ 12 + 1 / 2\<rfloor> = 1000000000000"
    by (rule floor_unique) simp_all
  then show "to_atomic (10000000000004 / 10 ^ 13) = Inr 1000000000000"
    unfolding to_atomic_def by simp
  show "from_atomic m * 10 ^ 12 = of_int m" by (simp add: from_atomic_def)
  show "from_atomic 1 = 1 / 10 ^ 12" by (simp add: from_atomic_def)
qed

theorem atomic_amounts_witness:
  "(0 :: rat) \<le> 25 / 10 ^ 13 \<and>
   (\<exists>n. to_atomic (25 / 10 ^ 13) = Inr n \<and> \<bar>of_int n - 25 / 10 ^ 13 * 10 ^ 12\<bar> \<le> 1 / (2 :: rat)) \<and>
   (25 / 10 ^ 13 * 10 ^ 12 :: rat) = of_int 2 + 1 / 2 \<and>
   to_atomic (25 / 10 ^ 13) = Inr 3"
proof -
  have a: "(0 :: rat) \<le> 25 / 10 ^ 13" by simp
  have t: "(25 / 10 ^ 13 * 10 ^ 12 :: rat) = of_int 2 + 1 / 2" by simp
  note h = atomic_amounts [of "25 / 10 ^ 13", THEN conjunct1, rule_format, OF a]
  from h [THEN conjunct1] h [THEN conjunct2, rule_format, OF t] a t
  show ?thesis by simp
qed

subsection \<open>Payment identifiers\<close>





















end
